theory Spec2Isabelle
  imports Main "HOL-Library.Sublist"
begin

section \<open>Allowlist matching\<close>

text \<open>
  Go strings are byte sequences; they are modelled as \<open>string\<close> (a list of 8-bit
  characters), so \<open>length\<close> is Go's \<open>len\<close>.  A \<open>time.Duration\<close> is a count of
  nanoseconds, modelled as \<open>int\<close>.
\<close>

subsection \<open>internal/tools/runner.go: Runner, NewRunner, allowed\<close>

record Runner =
  Allow :: "string list list"
  Timeout :: int

definition NewRunner :: "string list list \<Rightarrow> int \<Rightarrow> Runner" where
  "NewRunner allowlist timeout = \<lparr>Allow = allowlist, Timeout = timeout\<rparr>"

text \<open>
  The inner loop of \<open>allowed\<close>: \<open>for i := 1; i < len(allowed); i++\<close>, comparing
  \<open>allowed[i]\<close> with \<open>args[i-1]\<close> and leaving at the first difference.  It is entered
  only when \<open>len(allowed) == len(args)+1\<close>, so every index is in range there.
\<close>

function allowed_inner :: "string list \<Rightarrow> string list \<Rightarrow> nat \<Rightarrow> bool" where
  "allowed_inner entry args i =
     (if i < length entry
      then (if entry ! i \<noteq> args ! (i - 1) then False
            else allowed_inner entry args (i + 1))
      else True)"
  by pat_completeness auto
termination
  by (relation "measure (\<lambda>(entry, args, i). length entry - i)") auto

declare allowed_inner.simps [simp del]

text \<open>The outer loop \<open>for _, allowed := range r.Allow\<close>.\<close>

fun allowed_outer :: "string list list \<Rightarrow> string \<Rightarrow> string list \<Rightarrow> bool" where
  "allowed_outer [] cmd args = False"
| "allowed_outer (entry # rest) cmd args =
     (if length entry = length args + 1 \<and> entry ! 0 = cmd
      then (if allowed_inner entry args 1 then True
            else allowed_outer rest cmd args)
      else allowed_outer rest cmd args)"

definition allowed :: "Runner \<Rightarrow> string \<Rightarrow> string list \<Rightarrow> bool" where
  "allowed r cmd args = allowed_outer (Allow r) cmd args"

subsection \<open>Policy (package policy): the data and IsCommandAllowed\<close>

record Mode =
  ReadOnly :: bool
  Network :: bool
  MaxRuntimeSec :: int
  MaxTokens :: int

record ModelConfig =
  PrimaryAlias :: string
  SecondaryAlias :: string

record Limits =
  MaxFiles :: int
  MaxFileBytes :: int
  MaxPatchBytes :: int
  MaxIterations :: int

record Allowlist =
  Commands :: "string list list"

record PatchConfig =
  RequireTests :: bool
  CommitStyle :: string
  Signoff :: bool

record SecurityConfig =
  DenyPaths :: "string list"
  DenyGlobs :: "string list"

record LoggingConfig =
  PIIRedaction :: bool

record Policy =
  Version :: string
  Modes :: "string \<rightharpoonup> Mode"
  Models :: ModelConfig
  Limits :: Limits
  Allowlist :: Allowlist
  Patch :: PatchConfig
  Security :: SecurityConfig
  Logging :: LoggingConfig

definition DefaultPolicy :: Policy where
  "DefaultPolicy = \<lparr>
     Version = ''1'',
     Modes = [''default'' \<mapsto> \<lparr>ReadOnly = True, Network = False,
                               MaxRuntimeSec = 300, MaxTokens = 200000\<rparr>,
              ''apply'' \<mapsto> \<lparr>ReadOnly = False, Network = False,
                             MaxRuntimeSec = 300, MaxTokens = 200000\<rparr>],
     Models = \<lparr>PrimaryAlias = ''gpt-4'', SecondaryAlias = ''claude-3-sonnet''\<rparr>,
     Limits = \<lparr>MaxFiles = 4000, MaxFileBytes = 800000,
                MaxPatchBytes = 200000, MaxIterations = 4\<rparr>,
     Allowlist = \<lparr>Commands = [
        [''go'', ''build''],
        [''go'', ''test'', ''-cover''],
        [''cargo'', ''build''],
        [''cargo'', ''llvm-cov''],
        [''semgrep'', ''--config'', ''auto''],
        [''codeql'', ''database'', ''analyze''],
        [''gh'', ''pr'', ''create'']]\<rparr>,
     Patch = \<lparr>RequireTests = True, CommitStyle = ''conventional'', Signoff = True\<rparr>,
     Security = \<lparr>DenyPaths = [''/.sentinel'', ''/AGENT.md'', ''/.git'', ''/etc'', ''/usr''],
                  DenyGlobs = [''**/.sentinel/**'', ''**/.git/**'']\<rparr>,
     Logging = \<lparr>PIIRedaction = True\<rparr>\<rparr>"

function IsCommandAllowed_inner :: "string list \<Rightarrow> string list \<Rightarrow> nat \<Rightarrow> bool" where
  "IsCommandAllowed_inner entry args i =
     (if i < length entry
      then (if entry ! i \<noteq> args ! (i - 1) then False
            else IsCommandAllowed_inner entry args (i + 1))
      else True)"
  by pat_completeness auto
termination
  by (relation "measure (\<lambda>(entry, args, i). length entry - i)") auto

declare IsCommandAllowed_inner.simps [simp del]

fun IsCommandAllowed_outer :: "string list list \<Rightarrow> string \<Rightarrow> string list \<Rightarrow> bool" where
  "IsCommandAllowed_outer [] cmd args = False"
| "IsCommandAllowed_outer (entry # rest) cmd args =
     (if length entry = length args + 1 \<and> entry ! 0 = cmd
      then (if IsCommandAllowed_inner entry args 1 then True
            else IsCommandAllowed_outer rest cmd args)
      else IsCommandAllowed_outer rest cmd args)"

definition IsCommandAllowed :: "Policy \<Rightarrow> string \<Rightarrow> string list \<Rightarrow> bool" where
  "IsCommandAllowed p cmd args = IsCommandAllowed_outer (Commands (Allowlist p)) cmd args"

section \<open>Strings (packages strings, unicode and unicode/utf8 of the Go standard library)\<close>

text \<open>
  \<open>strings.HasPrefix(s, prefix)\<close> is \<open>len(s) >= len(prefix) && s[:len(prefix)] == prefix\<close>.
  \<open>strings.Contains(s, substr)\<close> holds when \<open>substr\<close> occurs in \<open>s\<close> at some byte
  offset.
\<close>

definition HasPrefix :: "string \<Rightarrow> string \<Rightarrow> bool" where
  "HasPrefix s pre = (length pre \<le> length s \<and> take (length pre) s = pre)"

fun Contains :: "string \<Rightarrow> string \<Rightarrow> bool" where
  "Contains [] substr = HasPrefix [] substr"
| "Contains (c # s) substr = (HasPrefix (c # s) substr \<or> Contains s substr)"

text \<open>
  Runes are code points, modelled as \<open>nat\<close>.  \<open>utf8.DecodeRuneInString\<close> gives the rune
  at the head of a string and its width in bytes: a byte below 128 is its own rune; a
  lead byte \<open>0xC2..0xF4\<close> announces 2, 3 or 4 bytes, the second of which must lie in the
  range that excludes overlong forms, surrogates and values above \<open>0x10FFFF\<close>; anything
  else is \<open>RuneError\<close> (\<open>U+FFFD\<close>) of width 1.  \<open>runes\<close> is the sequence that
  \<open>for _, r := range s\<close> visits.
\<close>

definition RuneError :: nat where
  "RuneError = 65533"

fun DecodeRuneInString :: "string \<Rightarrow> nat \<times> nat" where
  "DecodeRuneInString [] = (RuneError, 0)"
| "DecodeRuneInString (c0 # s) =
     (let s0 = (of_char c0 :: nat) in
      if s0 < 128 then (s0, 1)
      else if s0 < 194 \<or> 245 \<le> s0 then (RuneError, 1)
      else
        (let sz = (if s0 < 224 then 2 else if s0 < 240 then 3 else 4 :: nat);
             lo = (if s0 = 224 then 160 else if s0 = 240 then 144 else 128 :: nat);
             hi = (if s0 = 237 then 159 else if s0 = 244 then 143 else 191 :: nat)
         in if length (c0 # s) < sz then (RuneError, 1)
            else
              (let s1 = (of_char (s ! 0) :: nat) in
               if s1 < lo \<or> hi < s1 then (RuneError, 1)
               else if sz \<le> 2 then ((s0 mod 32) * 64 + s1 mod 64, 2)
               else
                 (let s2 = (of_char (s ! 1) :: nat) in
                  if s2 < 128 \<or> 191 < s2 then (RuneError, 1)
                  else if sz \<le> 3
                  then ((s0 mod 16) * 4096 + (s1 mod 64) * 64 + s2 mod 64, 3)
                  else
                    (let s3 = (of_char (s ! 2) :: nat) in
                     if s3 < 128 \<or> 191 < s3 then (RuneError, 1)
                     else ((s0 mod 8) * 262144 + (s1 mod 64) * 4096
                           + (s2 mod 64) * 64 + s3 mod 64, 4))))))"

lemma DecodeRune_width: "s \<noteq> [] \<Longrightarrow> 1 \<le> snd (DecodeRuneInString s)"
  by (cases s) (simp_all add: Let_def)

function runes :: "string \<Rightarrow> nat list" where
  "runes s = (if s = [] then []
              else fst (DecodeRuneInString s) # runes (drop (snd (DecodeRuneInString s)) s))"
  by pat_completeness auto
termination
proof (relation "measure length", goal_cases)
  case 1
  show ?case by simp
next
  case (2 s)
  then show ?case using DecodeRune_width [of s] by (cases s) auto
qed

declare runes.simps [simp del]
declare DecodeRuneInString.simps [simp del]

text \<open>
  \<open>utf8.AppendRune\<close>: one to four bytes; a surrogate or a value above \<open>0x10FFFF\<close> is
  written as \<open>U+FFFD\<close>.
\<close>

definition EncodeRune :: "nat \<Rightarrow> string" where
  "EncodeRune r =
     (if r \<le> 127 then [char_of r]
      else if r \<le> 2047 then [char_of (192 + r div 64), char_of (128 + r mod 64)]
      else if 1114111 < r \<or> (55296 \<le> r \<and> r \<le> 57343)
      then [char_of (239 :: nat), char_of (191 :: nat), char_of (189 :: nat)]
      else if r \<le> 65535
      then [char_of (224 + r div 4096), char_of (128 + (r div 64) mod 64),
            char_of (128 + r mod 64)]
      else [char_of (240 + r div 262144), char_of (128 + (r div 4096) mod 64),
            char_of (128 + (r div 64) mod 64), char_of (128 + r mod 64)])"

text \<open>
  \<open>unicode.ToLower\<close>: on ASCII it shifts \<open>A..Z\<close> to \<open>a..z\<close>; above ASCII it looks the rune
  up in the table \<open>unicode.CaseRanges\<close>, which is a parameter here (\<open>caseRanges r\<close> is
  the lower case of \<open>r\<close> by that table).
\<close>

definition unicode_ToLower :: "(nat \<Rightarrow> nat) \<Rightarrow> nat \<Rightarrow> nat" where
  "unicode_ToLower caseRanges r =
     (if r \<le> 127 then (if 65 \<le> r \<and> r \<le> 90 then r + 32 else r)
      else caseRanges r)"

text \<open>
  \<open>strings.Map(mapping, s)\<close> for a mapping that drops no rune: the encodings of the
  mapped runes of \<open>s\<close>, an invalid byte of \<open>s\<close> counting as \<open>U+FFFD\<close>.
  \<open>strings.ToLower\<close> lowers the bytes of an ASCII string in place (returning the string
  itself when it has no upper-case letter) and maps \<open>unicode.ToLower\<close> over the runes of
  any other string.
\<close>

definition strings_Map :: "(nat \<Rightarrow> nat) \<Rightarrow> string \<Rightarrow> string" where
  "strings_Map mapping s = concat (map (\<lambda>c. EncodeRune (mapping c)) (runes s))"

definition lower_byte :: "char \<Rightarrow> char" where
  "lower_byte c =
     (if 65 \<le> (of_char c :: nat) \<and> (of_char c :: nat) \<le> 90
      then char_of ((of_char c :: nat) + 32) else c)"

definition ToLower :: "(nat \<Rightarrow> nat) \<Rightarrow> string \<Rightarrow> string" where
  "ToLower caseRanges s =
     (if list_all (\<lambda>c. (of_char c :: nat) < 128) s
      then (if \<not> list_ex (\<lambda>c. 65 \<le> (of_char c :: nat) \<and> (of_char c :: nat) \<le> 90) s then s
            else map lower_byte s)
      else strings_Map (unicode_ToLower caseRanges) s)"

section \<open>Audit logging (internal/logging/audit.go)\<close>

text \<open>
  The logger is constructed with the redaction flag of the policy.  Its sink (the log
  file or standard output) is part of the outside world, introduced further down; the
  record keeps the path the sink was opened at (the field \<open>file\<close> of the source).
\<close>

record AuditLogger =
  logFile :: string
  redact :: bool

datatype MetaValue = MetaInt int | MetaBool bool | MetaStrings "string list"

record LogEntry =
  Timestamp :: int
  Step :: string
  Event :: string
  Tool :: string
  Args :: "string list"
  Duration :: int
  Status :: string
  Error :: string
  Metadata :: "(string \<times> MetaValue) list"

text \<open>
  \<open>containsSensitivePattern\<close>: the loop over the five patterns, on the lowered string.
  The table of \<open>unicode.ToLower\<close> is passed down to it.
\<close>

fun containsSensitivePattern_loop :: "string list \<Rightarrow> string \<Rightarrow> bool" where
  "containsSensitivePattern_loop [] lower = False"
| "containsSensitivePattern_loop (pattern # rest) lower =
     (if Contains lower pattern then True else containsSensitivePattern_loop rest lower)"

definition sensitive :: "string list" where
  "sensitive = [''key'', ''token'', ''secret'', ''password'', ''auth'']"

definition containsSensitivePattern :: "(nat \<Rightarrow> nat) \<Rightarrow> string \<Rightarrow> bool" where
  "containsSensitivePattern caseRanges s =
     containsSensitivePattern_loop sensitive (ToLower caseRanges s)"

text \<open>
  \<open>looksLikeToken\<close>.  The source ranges over the runes of \<open>s\<close> and tests each against
  the ASCII ranges \<open>a..z\<close>, \<open>A..Z\<close> and \<open>0..9\<close>.  In UTF-8 a rune below 128 is exactly one
  byte below 128 and every byte of a longer (or invalid) sequence decodes to a rune
  outside these ranges, so the loop is written over the bytes.
\<close>

definition is_alpha :: "char \<Rightarrow> bool" where
  "is_alpha r = ((97 \<le> (of_char r :: nat) \<and> (of_char r :: nat) \<le> 122) \<or>
                 (65 \<le> (of_char r :: nat) \<and> (of_char r :: nat) \<le> 90))"

definition is_num :: "char \<Rightarrow> bool" where
  "is_num r = (48 \<le> (of_char r :: nat) \<and> (of_char r :: nat) \<le> 57)"

fun looksLikeToken_loop :: "string \<Rightarrow> bool \<Rightarrow> bool \<Rightarrow> bool" where
  "looksLikeToken_loop [] hasAlpha hasNum = (hasAlpha \<and> hasNum)"
| "looksLikeToken_loop (r # s) hasAlpha hasNum =
     looksLikeToken_loop s (if is_alpha r then True else hasAlpha)
                           (if is_num r then True else hasNum)"

definition looksLikeToken :: "string \<Rightarrow> bool" where
  "looksLikeToken s = (if length s < 20 then False else looksLikeToken_loop s False False)"

fun maybeRedactArgs_loop :: "(nat \<Rightarrow> nat) \<Rightarrow> string list \<Rightarrow> string list" where
  "maybeRedactArgs_loop caseRanges [] = []"
| "maybeRedactArgs_loop caseRanges (arg # rest) =
     (if 20 < length arg \<and> (containsSensitivePattern caseRanges arg \<or> looksLikeToken arg)
      then ''[REDACTED]'' else arg) # maybeRedactArgs_loop caseRanges rest"

definition maybeRedactArgs :: "AuditLogger \<Rightarrow> (nat \<Rightarrow> nat) \<Rightarrow> string list \<Rightarrow> string list" where
  "maybeRedactArgs a caseRanges args =
     (if \<not> redact a then args else maybeRedactArgs_loop caseRanges args)"

definition maybeRedactError :: "AuditLogger \<Rightarrow> string \<Rightarrow> string" where
  "maybeRedactError a err =
     (if \<not> redact a then err
      else if 100 < length err then ''[REDACTED ERROR]'' else err)"

text \<open>
  The redaction rule, stated without the functions of the logger.  A rune is the same
  letter as a lower-case keyword letter when it is that letter, its ASCII capital, or a
  rune above ASCII whose lower case by the Unicode table is that letter.  An argument
  contains a keyword ignoring case when some run of consecutive characters of the
  argument is, letter by letter, the keyword.  The letters and digits of the token shape
  are the ASCII ones.  The length is the number of bytes.
\<close>

definition same_letter :: "(nat \<Rightarrow> nat) \<Rightarrow> nat \<Rightarrow> char \<Rightarrow> bool" where
  "same_letter caseRanges r x =
     (r = of_char x \<or> r + 32 = of_char x \<or> (127 < r \<and> caseRanges r = of_char x))"

definition contains_ignoring_case :: "(nat \<Rightarrow> nat) \<Rightarrow> string \<Rightarrow> string \<Rightarrow> bool" where
  "contains_ignoring_case caseRanges arg k =
     (\<exists>rs. sublist rs (runes arg) \<and> list_all2 (same_letter caseRanges) rs k)"

definition lowercase_word :: "string \<Rightarrow> bool" where
  "lowercase_word k = list_all (\<lambda>x. 97 \<le> (of_char x :: nat) \<and> (of_char x :: nat) \<le> 122) k"

definition ascii_letters :: string where
  "ascii_letters = ''abcdefghijklmnopqrstuvwxyzABCDEFGHIJKLMNOPQRSTUVWXYZ''"

definition ascii_digits :: string where
  "ascii_digits = ''0123456789''"

definition redaction_rule :: "(nat \<Rightarrow> nat) \<Rightarrow> string \<Rightarrow> bool" where
  "redaction_rule caseRanges arg =
     (20 < length arg \<and>
      (list_ex (contains_ignoring_case caseRanges arg)
               [''key'', ''token'', ''secret'', ''password'', ''auth'']
       \<or> (20 \<le> length arg \<and> list_ex (\<lambda>c. c \<in> set ascii_letters) arg
                             \<and> list_ex (\<lambda>c. c \<in> set ascii_digits) arg)))"

text \<open>The number of characters (code points) of a string, as \<open>utf8.RuneCountInString\<close>.\<close>

definition characters :: "string \<Rightarrow> nat" where
  "characters s = length (runes s)"

section \<open>Paths (package path/filepath of the Go standard library, Unix)\<close>

text \<open>
  \<open>filepath.Clean\<close> works on the bytes of the path: \<open>r\<close> is the index of the next byte
  to read, \<open>out\<close> the buffer written so far (its length is the write index \<open>w\<close>), and
  \<open>dotdot\<close> the index in the buffer where a \<open>..\<close> must stop backtracking, either the
  leading slash or a leading run of \<open>../..\<close>.  An empty path, and an empty result, is
  \<open>.\<close>.
\<close>

function clean_back :: "string \<Rightarrow> nat \<Rightarrow> nat \<Rightarrow> nat" where
  "clean_back out dotdot w =
     (if dotdot < w \<and> out ! w \<noteq> CHR ''/'' then clean_back out dotdot (w - 1) else w)"
  by pat_completeness auto
termination
  by (relation "measure (\<lambda>(out, dotdot, w). w)") auto

declare clean_back.simps [simp del]

lemma elem_nonempty:
  "r < length path \<Longrightarrow> path ! r \<noteq> CHR ''/'' \<Longrightarrow>
   0 < length (takeWhile (\<lambda>c. c \<noteq> CHR ''/'') (drop r path))"
  by (simp add: Cons_nth_drop_Suc [symmetric])

lemma elem_step:
  assumes "r < length path" and "path ! r \<noteq> CHR ''/''"
  shows "length path - (r + length (takeWhile (\<lambda>c. c \<noteq> CHR ''/'') (drop r path)))
         < length path - r"
proof -
  have "0 < length (takeWhile (\<lambda>c. c \<noteq> CHR ''/'') (drop r path))"
    using assms by (rule elem_nonempty)
  with assms(1) show ?thesis by arith
qed

function clean_loop :: "string \<Rightarrow> bool \<Rightarrow> nat \<Rightarrow> string \<Rightarrow> nat \<Rightarrow> string" where
  "clean_loop path rooted r out dotdot =
     (if r < length path then
        (if path ! r = CHR ''/'' then clean_loop path rooted (r + 1) out dotdot
         else if path ! r = CHR ''.'' \<and> (r + 1 = length path \<or> path ! (r + 1) = CHR ''/'')
         then clean_loop path rooted (r + 1) out dotdot
         else if path ! r = CHR ''.'' \<and> path ! (r + 1) = CHR ''.'' \<and>
                 (r + 2 = length path \<or> path ! (r + 2) = CHR ''/'')
         then (if dotdot < length out
               then clean_loop path rooted (r + 2)
                      (take (clean_back out dotdot (length out - 1)) out) dotdot
               else if \<not> rooted
               then clean_loop path rooted (r + 2)
                      ((if 0 < length out then out @ ''/'' else out) @ ''..'')
                      (length ((if 0 < length out then out @ ''/'' else out) @ ''..''))
               else clean_loop path rooted (r + 2) out dotdot)
         else clean_loop path rooted
                (r + length (takeWhile (\<lambda>c. c \<noteq> CHR ''/'') (drop r path)))
                ((if (rooted \<and> length out \<noteq> 1) \<or> (\<not> rooted \<and> length out \<noteq> 0)
                  then out @ ''/'' else out)
                 @ takeWhile (\<lambda>c. c \<noteq> CHR ''/'') (drop r path))
                dotdot)
      else out)"
  by pat_completeness auto
termination
proof (relation "measure (\<lambda>(path, rooted, r, out, dotdot). length path - r)", goal_cases)
  case 1
  show ?case by simp
next
  case (7 path rooted r out dotdot)
  then show ?case using elem_step [of r path] by simp
qed auto

declare clean_loop.simps [simp del]

definition Clean :: "string \<Rightarrow> string" where
  "Clean path =
     (if path = [] then ''.''
      else let rooted = (path ! 0 = CHR ''/'');
               out = (if rooted then clean_loop path rooted 1 ''/'' 1
                      else clean_loop path rooted 0 [] 0)
           in if length out = 0 then ''.'' else out)"

definition IsAbs :: "string \<Rightarrow> bool" where
  "IsAbs path = HasPrefix path ''/''"

text \<open>
  \<open>filepath.Join(wd, path)\<close>: empty elements are dropped, the rest joined by the
  separator and cleaned; with nothing left the result is empty.
\<close>

definition Join2 :: "string \<Rightarrow> string \<Rightarrow> string" where
  "Join2 a b =
     (if a \<noteq> [] then Clean (a @ ''/'' @ b)
      else if b \<noteq> [] then Clean b
      else [])"

text \<open>
  \<open>filepath.Abs\<close>: an absolute path is cleaned; a relative one is joined to the
  working directory, and the call fails when \<open>os.Getwd\<close> fails.  The argument \<open>wd\<close> is
  what \<open>os.Getwd\<close> gives (\<open>None\<close> for its error).
\<close>

definition Abs :: "string option \<Rightarrow> string \<Rightarrow> string option" where
  "Abs wd path =
     (if IsAbs path then Some (Clean path)
      else (case wd of None \<Rightarrow> None | Some d \<Rightarrow> Some (Join2 d path)))"

section \<open>The outside world\<close>

text \<open>
  What the program asks of its environment is collected in \<open>Env\<close>, a record of answers
  that the model does not fix: the readings of the clock (\<open>timeAt n\<close> is the reading of
  the \<open>n\<close>-th call of \<open>time.Now\<close>), whether \<open>exec.LookPath\<close> finds a program, what a
  started process returns, the working directory, \<open>filepath.Match\<close> (with its error
  dropped, as the callers drop it), the JSON decoding of the analyser's output, the walk
  over the Go files with their analysis, the JSON encoding of the SARIF document,
  the error of opening the log file (\<open>None\<close> when it opens), and the lower-case table
  of the \<open>unicode\<close> package for the runes above ASCII.

  What the program can change is collected in \<open>World\<close>: the number of clock readings
  taken, the processes started (in order), the lines appended to the audit sink, and the
  contents of the files.
\<close>

record ExecOutcome =
  combinedOutput :: string
  runErr :: "string option"
  exitState :: "int option"

record Finding =
  RuleID :: string
  Message :: string
  Severity :: string
  File :: string
  Line :: int
  Column :: int
  Description :: string
  Confidence :: string

record Symbol =
  Name :: string
  Kind :: string
  Package :: string
  File :: string
  Line :: int
  Exported :: bool
  References :: int
  LastTouch :: string
  Risk :: string
  Description :: string

record security_ScanResult =
  Tool :: string
  Findings :: "Finding list"
  Duration :: int
  Error :: string

record Env =
  timeAt :: "nat \<Rightarrow> int"
  lookPath :: "string \<Rightarrow> bool"
  execute :: "int \<Rightarrow> string \<Rightarrow> string list \<Rightarrow> ExecOutcome"
  getwd :: "string option"
  globMatch :: "string \<Rightarrow> string \<Rightarrow> bool"
  parseSemgrep :: "string \<Rightarrow> string \<Rightarrow> string + Finding list"
  findGoFiles :: "string \<Rightarrow> string + string list"
  analyzeFiles :: "string list \<Rightarrow> Symbol list"
  marshalSARIF :: "security_ScanResult list \<Rightarrow> string + string"
  openFile :: "string \<Rightarrow> string option"
  CaseRanges :: "nat \<Rightarrow> nat"

record World =
  clock :: nat
  started :: "(string \<times> string list) list"
  sink :: "LogEntry list"
  files :: "string \<rightharpoonup> string"

definition timeNow :: "Env \<Rightarrow> World \<Rightarrow> int \<times> World" where
  "timeNow env w = (timeAt env (clock w), w\<lparr>clock := clock w + 1\<rparr>)"

definition timeSince :: "Env \<Rightarrow> int \<Rightarrow> World \<Rightarrow> int \<times> World" where
  "timeSince env start w = (timeAt env (clock w) - start, w\<lparr>clock := clock w + 1\<rparr>)"

section \<open>Command runner (internal/tools/runner.go): Run and its wrappers\<close>

record RunResult =
  Stdout :: string
  Stderr :: string
  ExitCode :: int
  Duration :: int
  Error :: "string option"

definition Run :: "Runner \<Rightarrow> Env \<Rightarrow> string \<Rightarrow> string list \<Rightarrow> World \<Rightarrow> RunResult \<times> World" where
  "Run r env cmd args w =
     (let (start, w1) = timeNow env w in
      if \<not> allowed r cmd args then
        (let (d, w2) = timeSince env start w1 in
         (\<lparr>Stdout = [], Stderr = [], ExitCode = 0, RunResult.Duration = d,
           RunResult.Error = Some ''command not allowlisted''\<rparr>, w2))
      else
        (let w2 = w1\<lparr>started := started w1 @ [(cmd, args)]\<rparr>;
             oc = execute env (Timeout r) cmd args;
             (d, w3) = timeSince env start w2
         in (\<lparr>Stdout = combinedOutput oc, Stderr = [],
              ExitCode = (case exitState oc of None \<Rightarrow> 0 | Some c \<Rightarrow> c),
              RunResult.Duration = d, RunResult.Error = runErr oc\<rparr>, w3)))"

definition Build :: "Runner \<Rightarrow> Env \<Rightarrow> string \<Rightarrow> World \<Rightarrow> RunResult \<times> World" where
  "Build r env target w =
     (if target = [] then
        (if lookPath env ''go'' then Run r env ''go'' [''build'', ''./...''] w
         else if lookPath env ''cargo'' then Run r env ''cargo'' [''build''] w
         else (\<lparr>Stdout = [], Stderr = [], ExitCode = 0, RunResult.Duration = 0,
                RunResult.Error = Some ''no supported build system found''\<rparr>, w))
      else Run r env ''go'' [''build'', target] w)"

definition Test :: "Runner \<Rightarrow> Env \<Rightarrow> string \<Rightarrow> World \<Rightarrow> RunResult \<times> World" where
  "Test r env pattern w =
     Run r env ''go''
       (([''test''] @ (if pattern \<noteq> [] then [''-run'', pattern] else []))
        @ [''-cover'', ''./...'']) w"

definition Coverage :: "Runner \<Rightarrow> Env \<Rightarrow> World \<Rightarrow> RunResult \<times> World" where
  "Coverage r env w = Run r env ''go'' [''test'', ''-coverprofile=coverage.out'', ''./...''] w"

section \<open>Patcher (internal/tools/patcher.go)\<close>

record Patcher =
  Workspace :: string
  DenyPaths :: "string list"
  DenyGlobs :: "string list"

definition NewPatcher :: "string \<Rightarrow> string list \<Rightarrow> string list \<Rightarrow> Patcher" where
  "NewPatcher workspace denyPaths denyGlobs =
     \<lparr>Workspace = workspace, Patcher.DenyPaths = denyPaths, Patcher.DenyGlobs = denyGlobs\<rparr>"

record tools_ApplyResult =
  Applied :: bool
  Files :: "string list"
  Error :: string

record Hunk =
  OldStart :: int
  OldCount :: int
  NewStart :: int
  NewCount :: int
  Lines :: "string list"

record FilePatch =
  File :: string
  Hunks :: "Hunk list"

text \<open>The two deny loops of \<open>isPathAllowed\<close>: true when some rule denies the path.\<close>

fun denyPath_loop :: "string list \<Rightarrow> string \<Rightarrow> bool" where
  "denyPath_loop [] cleanPath = False"
| "denyPath_loop (denyPath # rest) cleanPath =
     (if HasPrefix cleanPath denyPath then True else denyPath_loop rest cleanPath)"

fun denyGlob_loop :: "Env \<Rightarrow> string list \<Rightarrow> string \<Rightarrow> bool" where
  "denyGlob_loop env [] cleanPath = False"
| "denyGlob_loop env (denyGlob # rest) cleanPath =
     (if globMatch env denyGlob cleanPath then True else denyGlob_loop env rest cleanPath)"

definition isPathAllowed :: "Patcher \<Rightarrow> Env \<Rightarrow> string \<Rightarrow> bool" where
  "isPathAllowed p env path =
     (let cleanPath = Clean path in
      if denyPath_loop (Patcher.DenyPaths p) cleanPath then False
      else if denyGlob_loop env (Patcher.DenyGlobs p) cleanPath then False
      else (case Abs (getwd env) cleanPath of
              None \<Rightarrow> False
            | Some absPath \<Rightarrow>
                (case Abs (getwd env) (Workspace p) of
                   None \<Rightarrow> False
                 | Some absWorkspace \<Rightarrow> HasPrefix absPath absWorkspace)))"

text \<open>
  \<open>applySinglePatch\<close> and \<open>parseUnifiedDiff\<close> are stubs in the source: neither reads or
  writes anything, and both return an error.  \<open>None\<close> is Go's nil error.
\<close>

definition applySinglePatch :: "Patcher \<Rightarrow> FilePatch \<Rightarrow> World \<Rightarrow> string option \<times> World" where
  "applySinglePatch p patch w = (Some ''patch application not implemented'', w)"

definition parseUnifiedDiff :: "string \<Rightarrow> FilePatch list \<times> string option" where
  "parseUnifiedDiff diff = ([], Some ''diff parsing not implemented'')"





section \<open>Audit logging: writing records\<close>

text \<open>
  \<open>time.Duration.Milliseconds\<close> is an integer division by \<open>10^6\<close> that truncates towards
  zero.  \<open>writeEntry\<close> encodes the entry as JSON and appends the line to the sink; the
  encoding cannot fail on the entries built here, so the line is always appended.
\<close>

definition Milliseconds :: "int \<Rightarrow> int" where
  "Milliseconds d = (if d < 0 then - ((- d) div 1000000) else d div 1000000)"

definition NewAuditLogger :: "Env \<Rightarrow> string \<Rightarrow> bool \<Rightarrow> string + AuditLogger" where
  "NewAuditLogger env logPath redactPII =
     (if logPath \<noteq> [] then
        (case openFile env logPath of
           Some e \<Rightarrow> Inl e
         | None \<Rightarrow> Inr \<lparr>logFile = logPath, redact = redactPII\<rparr>)
      else Inr \<lparr>logFile = ''/dev/stdout'', redact = redactPII\<rparr>)"

definition writeEntry :: "AuditLogger \<Rightarrow> LogEntry \<Rightarrow> World \<Rightarrow> World" where
  "writeEntry a entry w = w\<lparr>sink := sink w @ [entry]\<rparr>"

definition LogToolCall ::
  "AuditLogger \<Rightarrow> Env \<Rightarrow> string \<Rightarrow> string \<Rightarrow> string list \<Rightarrow> int \<Rightarrow> string \<Rightarrow> string option
   \<Rightarrow> World \<Rightarrow> World" where
  "LogToolCall a env step tool args duration status err w =
     (let (ts, w1) = timeNow env w;
          entry = \<lparr>Timestamp = ts, Step = step, Event = ''tool.run'', LogEntry.Tool = tool,
                   Args = maybeRedactArgs a (CaseRanges env) args,
                   LogEntry.Duration = Milliseconds duration, Status = status,
                   LogEntry.Error = [], Metadata = []\<rparr>;
          entry1 = (case err of None \<Rightarrow> entry
                    | Some e \<Rightarrow> entry\<lparr>LogEntry.Error := maybeRedactError a e\<rparr>)
      in writeEntry a entry1 w1)"

definition LogLLMCall ::
  "AuditLogger \<Rightarrow> Env \<Rightarrow> string \<Rightarrow> string \<Rightarrow> int \<Rightarrow> int \<Rightarrow> string \<Rightarrow> string option
   \<Rightarrow> World \<Rightarrow> World" where
  "LogLLMCall a env step model tokens duration status err w =
     (let (ts, w1) = timeNow env w;
          entry = \<lparr>Timestamp = ts, Step = step, Event = ''llm.call'', LogEntry.Tool = model,
                   Args = [],
                   LogEntry.Duration = Milliseconds duration, Status = status,
                   LogEntry.Error = [], Metadata = [(''tokens'', MetaInt tokens)]\<rparr>;
          entry1 = (case err of None \<Rightarrow> entry
                    | Some e \<Rightarrow> entry\<lparr>LogEntry.Error := maybeRedactError a e\<rparr>)
      in writeEntry a entry1 w1)"

definition LogScanResult ::
  "AuditLogger \<Rightarrow> Env \<Rightarrow> string \<Rightarrow> int \<Rightarrow> int \<Rightarrow> World \<Rightarrow> World" where
  "LogScanResult a env step findings duration w =
     (let (ts, w1) = timeNow env w;
          entry = \<lparr>Timestamp = ts, Step = step, Event = ''scan.result'', LogEntry.Tool = [],
                   Args = [],
                   LogEntry.Duration = Milliseconds duration, Status = ''ok'',
                   LogEntry.Error = [], Metadata = [(''findings'', MetaInt findings)]\<rparr>
      in writeEntry a entry w1)"

definition LogPatchApplication ::
  "AuditLogger \<Rightarrow> Env \<Rightarrow> string \<Rightarrow> string list \<Rightarrow> bool \<Rightarrow> string option \<Rightarrow> World \<Rightarrow> World" where
  "LogPatchApplication a env step fs success err w =
     (let (ts, w1) = timeNow env w;
          entry = \<lparr>Timestamp = ts, Step = step, Event = ''patch.apply'', LogEntry.Tool = [],
                   Args = [], LogEntry.Duration = 0, Status = ''ok'',
                   LogEntry.Error = [],
                   Metadata = [(''files'', MetaStrings fs), (''success'', MetaBool success)]\<rparr>;
          entry1 = (case err of None \<Rightarrow> entry
                    | Some e \<Rightarrow> entry\<lparr>LogEntry.Error := maybeRedactError a e,
                                        Status := ''error''\<rparr>)
      in writeEntry a entry1 w1)"

section \<open>Security scanner (internal/security/scanner.go)\<close>

text \<open>
  The decoding of the analyser's JSON output into findings and the encoding of the SARIF
  document are answers of the environment.  \<open>runSemgrep\<close> and \<open>runCodeQL\<close> never return
  a nil pointer, so \<open>Scan\<close> appends both results; it never returns an error.
\<close>

record Scanner =
  runner :: Runner
  workspace :: string

definition NewScanner :: "Runner \<Rightarrow> string \<Rightarrow> Scanner" where
  "NewScanner r ws = \<lparr>Scanner.runner = r, Scanner.workspace = ws\<rparr>"

definition runSemgrep :: "Scanner \<Rightarrow> Env \<Rightarrow> World \<Rightarrow> security_ScanResult \<times> World" where
  "runSemgrep s env w =
     (let (start, w1) = timeNow env w in
      if \<not> lookPath env ''semgrep'' then
        (let (d, w2) = timeSince env start w1 in
         (\<lparr>security_ScanResult.Tool = ''semgrep'', Findings = [],
           security_ScanResult.Duration = d,
           security_ScanResult.Error = ''semgrep not found in PATH''\<rparr>, w2))
      else
        (let (result, w2) =
               Run (Scanner.runner s) env ''semgrep''
                 [''--config'', ''auto'', ''--json'', Scanner.workspace s] w1
         in case RunResult.Error result of
              Some e \<Rightarrow>
                (let (d, w3) = timeSince env start w2 in
                 (\<lparr>security_ScanResult.Tool = ''semgrep'', Findings = [],
                   security_ScanResult.Duration = d,
                   security_ScanResult.Error = e\<rparr>, w3))
            | None \<Rightarrow>
                (case parseSemgrep env (Scanner.workspace s) (Stdout result) of
                   Inl e \<Rightarrow>
                     (let (d, w3) = timeSince env start w2 in
                      (\<lparr>security_ScanResult.Tool = ''semgrep'', Findings = [],
                        security_ScanResult.Duration = d,
                        security_ScanResult.Error =
                          ''failed to parse semgrep output: '' @ e\<rparr>, w3))
                 | Inr findings \<Rightarrow>
                     (let (d, w3) = timeSince env start w2 in
                      (\<lparr>security_ScanResult.Tool = ''semgrep'', Findings = findings,
                        security_ScanResult.Duration = d,
                        security_ScanResult.Error = []\<rparr>, w3)))))"

definition runCodeQL :: "Scanner \<Rightarrow> Env \<Rightarrow> World \<Rightarrow> security_ScanResult \<times> World" where
  "runCodeQL s env w =
     (let (start, w1) = timeNow env w in
      if \<not> lookPath env ''codeql'' then
        (let (d, w2) = timeSince env start w1 in
         (\<lparr>security_ScanResult.Tool = ''codeql'', Findings = [],
           security_ScanResult.Duration = d,
           security_ScanResult.Error = ''codeql not found in PATH''\<rparr>, w2))
      else
        (let (d, w2) = timeSince env start w1 in
         (\<lparr>security_ScanResult.Tool = ''codeql'', Findings = [],
           security_ScanResult.Duration = d,
           security_ScanResult.Error = ''CodeQL integration not fully implemented''\<rparr>, w2)))"

definition Scanner_Scan ::
  "Scanner \<Rightarrow> Env \<Rightarrow> World \<Rightarrow> (string + security_ScanResult list) \<times> World" where
  "Scanner_Scan s env w =
     (let (semgrepResult, w1) = runSemgrep s env w;
          (codeqlResult, w2) = runCodeQL s env w1
      in (Inr ([] @ [semgrepResult] @ [codeqlResult]), w2))"

definition GenerateSARIF :: "Scanner \<Rightarrow> Env \<Rightarrow> security_ScanResult list \<Rightarrow> string + string" where
  "GenerateSARIF s env results = marshalSARIF env results"

section \<open>Dead-code detector (internal/deadcode/detector.go)\<close>

text \<open>
  \<open>getCoverage\<close> runs the coverage command through the runner and gives an empty
  coverage map or the runner's error; \<open>Detect\<close> replaces the error by the empty map.
  The walk over the workspace and the analysis of the Go files are answers of the
  environment.  \<open>Detect\<close> never returns an error.
\<close>

record DeadCodeResult =
  Symbols :: "Symbol list"
  Duration :: int
  Error :: string

record Detector =
  runner :: Runner
  workspace :: string

definition NewDetector :: "Runner \<Rightarrow> string \<Rightarrow> Detector" where
  "NewDetector r ws = \<lparr>Detector.runner = r, Detector.workspace = ws\<rparr>"

definition getCoverage ::
  "Detector \<Rightarrow> Env \<Rightarrow> World \<Rightarrow> (string + (string \<rightharpoonup> int)) \<times> World" where
  "getCoverage d env w =
     (let (result, w1) = Coverage (Detector.runner d) env w in
      case RunResult.Error result of
        Some e \<Rightarrow> (Inl e, w1)
      | None \<Rightarrow> (Inr Map.empty, w1))"

definition Detect :: "Detector \<Rightarrow> Env \<Rightarrow> World \<Rightarrow> (string + DeadCodeResult) \<times> World" where
  "Detect d env w =
     (let (start, w1) = timeNow env w;
          (cov, w2) = getCoverage d env w1;
          coverage = (case cov of Inl e \<Rightarrow> Map.empty | Inr m \<Rightarrow> m)
      in case findGoFiles env (Detector.workspace d) of
           Inl e \<Rightarrow>
             (let (dur, w3) = timeSince env start w2 in
              (Inr \<lparr>Symbols = [], DeadCodeResult.Duration = dur,
                    DeadCodeResult.Error = ''failed to find Go files: '' @ e\<rparr>, w3))
         | Inr goFiles \<Rightarrow>
             (let deadSymbols = analyzeFiles env goFiles;
                  (dur, w3) = timeSince env start w2
              in (Inr \<lparr>Symbols = deadSymbols, DeadCodeResult.Duration = dur,
                       DeadCodeResult.Error = []\<rparr>, w3)))"

section \<open>Engine (internal/engine/engine.go)\<close>

record Options =
  Repo :: string
  AgentPath :: string
  Policy :: Policy
  LogPath :: string

record ScanOpts =
  Security :: bool
  DeadCode :: bool

record Step =
  Name :: string
  Why :: string
  BudgetTokens :: int
  Tools :: "string list"
  StopAfter :: string

record Metadata =
  CreatedAt :: int
  SuccessCriteria :: "string list"
  TotalTokens :: int

record Plan =
  Steps :: "Step list"
  Metadata :: Metadata

record engine_ScanResult =
  SARIF :: string
  Plan :: Plan
  ExitCode :: int
  Summary :: string

record engine_ApplyResult =
  Success :: bool
  Error :: string
  Files :: "string list"

record PROptions =
  Title :: string
  Body :: string
  Draft :: bool
  PlanPath :: string

record PRResult =
  URL :: string

record Engine =
  options :: Options
  policy :: Policy
  runner :: Runner
  scanner :: Scanner
  detector :: Detector
  auditLogger :: AuditLogger

text \<open>
  \<open>New\<close>.  A missing key of the \<open>Modes\<close> map reads as the zero \<open>Mode\<close>; the timeout is
  the product \<open>MaxRuntimeSec * time.Second\<close> in 64-bit signed arithmetic.
\<close>

definition int64 :: "int \<Rightarrow> int" where
  "int64 x = (x + 9223372036854775808) mod 18446744073709551616 - 9223372036854775808"

definition zeroMode :: Mode where
  "zeroMode = \<lparr>ReadOnly = False, Network = False, MaxRuntimeSec = 0, MaxTokens = 0\<rparr>"

definition New :: "Env \<Rightarrow> Options \<Rightarrow> string + Engine" where
  "New env opts =
     (let mode = (case Modes (Options.Policy opts) ''default'' of
                    None \<Rightarrow> zeroMode | Some m \<Rightarrow> m);
          r = NewRunner (Commands (Allowlist (Options.Policy opts)))
                (int64 (MaxRuntimeSec mode * 1000000000))
      in case NewAuditLogger env (LogPath opts)
                (PIIRedaction (Logging (Options.Policy opts))) of
           Inl e \<Rightarrow> Inl e
         | Inr a \<Rightarrow>
             Inr \<lparr>options = opts, policy = Options.Policy opts, Engine.runner = r,
                   scanner = NewScanner r (Repo opts),
                   detector = NewDetector r (Repo opts),
                   auditLogger = a\<rparr>)"

text \<open>Decimal digits of a count, as \<open>%d\<close> prints it.\<close>

function itoa :: "nat \<Rightarrow> string" where
  "itoa n = (if n < 10 then [char_of (48 + n)]
             else itoa (n div 10) @ [char_of (48 + n mod 10)])"
  by pat_completeness auto
termination
  by (relation "measure (\<lambda>n. n)") auto

declare itoa.simps [simp del]

text \<open>The loop \<open>for _, result := range securityResults\<close> that adds up the findings.\<close>

fun countFindings :: "security_ScanResult list \<Rightarrow> nat \<Rightarrow> nat" where
  "countFindings [] totalFindings = totalFindings"
| "countFindings (result # rest) totalFindings =
     countFindings rest (totalFindings + length (Findings result))"

text \<open>
  \<open>Scan\<close> keeps three local variables over its two blocks: the SARIF bytes (nil at
  first), the exit code and the summary.  Each block is given them and returns them, or
  returns the error that ends the scan.
\<close>

type_synonym scan_locals = "string option \<times> int \<times> string"

definition Scan_security ::
  "Engine \<Rightarrow> Env \<Rightarrow> int \<Rightarrow> scan_locals \<Rightarrow> World \<Rightarrow> (string + scan_locals) \<times> World" where
  "Scan_security e env start locals w =
     (case locals of (sarifData, exitCode, summary) \<Rightarrow>
      let w1 = LogToolCall (auditLogger e) env ''security'' ''scanner''
                 [''security'', ''scan''] 0 ''started'' None w;
          (r, w2) = Scanner_Scan (scanner e) env w1
      in case r of
           Inl err \<Rightarrow>
             (let (d, w3) = timeSince env start w2;
                  w4 = LogToolCall (auditLogger e) env ''security'' ''scanner''
                         [''security'', ''scan''] d ''error'' (Some err) w3
              in (Inl err, w4))
         | Inr securityResults \<Rightarrow>
             (case GenerateSARIF (scanner e) env securityResults of
                Inl err \<Rightarrow>
                  (let (d, w3) = timeSince env start w2;
                       w4 = LogToolCall (auditLogger e) env ''security'' ''scanner''
                              [''sarif'', ''generate''] d ''error'' (Some err) w3
                   in (Inl err, w4))
              | Inr sarif \<Rightarrow>
                  (let totalFindings = countFindings securityResults 0;
                       (d, w3) = timeSince env start w2;
                       w4 = LogScanResult (auditLogger e) env ''security''
                              (int totalFindings) d w3
                   in if 0 < totalFindings
                      then (Inr (Some sarif, 10,
                                 ''Found '' @ itoa totalFindings @ '' security findings''), w4)
                      else (Inr (Some sarif, exitCode, summary), w4))))"

definition Scan_deadcode ::
  "Engine \<Rightarrow> Env \<Rightarrow> int \<Rightarrow> scan_locals \<Rightarrow> World \<Rightarrow> (string + scan_locals) \<times> World" where
  "Scan_deadcode e env start locals w =
     (case locals of (sarifData, exitCode, summary) \<Rightarrow>
      let w1 = LogToolCall (auditLogger e) env ''deadcode'' ''detector''
                 [''deadcode'', ''detect''] 0 ''started'' None w;
          (r, w2) = Detect (detector e) env w1
      in case r of
           Inl err \<Rightarrow>
             (let (d, w3) = timeSince env start w2;
                  w4 = LogToolCall (auditLogger e) env ''deadcode'' ''detector''
                         [''deadcode'', ''detect''] d ''error'' (Some err) w3
              in (Inl err, w4))
         | Inr deadCodeResult \<Rightarrow>
             (let (d, w3) = timeSince env start w2;
                  w4 = LogScanResult (auditLogger e) env ''deadcode''
                         (int (length (Symbols deadCodeResult))) d w3
              in if 0 < length (Symbols deadCodeResult)
                 then (Inr (sarifData,
                            (if exitCode = 0 then 11 else exitCode),
                            summary @ ''; Found '' @ itoa (length (Symbols deadCodeResult))
                              @ '' dead code symbols''), w4)
                 else (Inr (sarifData, exitCode, summary), w4)))"

definition emptySARIF :: string where
  \<open>emptySARIF = ''{"version":"2.1.0","runs":[]}''\<close>

definition basicPlan :: "int \<Rightarrow> Plan" where
  "basicPlan createdAt =
     \<lparr>Steps = [\<lparr>Name = ''analysis'',
                 Why = ''Analyze codebase for security issues and dead code'',
                 BudgetTokens = 1000, Tools = [''scanner'', ''detector''],
                 StopAfter = []\<rparr>],
      Metadata = \<lparr>CreatedAt = createdAt,
                   SuccessCriteria = [''build passes'', ''no high/critical findings''],
                   TotalTokens = 1000\<rparr>\<rparr>"

definition Engine_Scan ::
  "Engine \<Rightarrow> Env \<Rightarrow> ScanOpts \<Rightarrow> World \<Rightarrow> (string + engine_ScanResult) \<times> World" where
  "Engine_Scan e env opts w =
     (let (start, w0) = timeNow env w;
          locals0 = (None, 0, ''Scan completed successfully'')
      in case (if Security opts then Scan_security e env start locals0 w0
               else (Inr locals0, w0)) of
           (Inl err, w1) \<Rightarrow> (Inl err, w1)
         | (Inr locals1, w1) \<Rightarrow>
             (case (if DeadCode opts then Scan_deadcode e env start locals1 w1
                    else (Inr locals1, w1)) of
                (Inl err, w2) \<Rightarrow> (Inl err, w2)
              | (Inr (sarifData, exitCode, summary), w2) \<Rightarrow>
                  (let (createdAt, w3) = timeNow env w2
                   in (Inr \<lparr>SARIF = (case sarifData of None \<Rightarrow> emptySARIF | Some d \<Rightarrow> d),
                            Plan = basicPlan createdAt,
                            engine_ScanResult.ExitCode = exitCode,
                            Summary = summary\<rparr>, w3))))"

text \<open>
  \<open>Apply\<close> and \<open>CreatePR\<close>: the bodies are a comment listing the work to be done and a
  return statement.  Neither reads its arguments or touches the world.
\<close>

definition Apply :: "Engine \<Rightarrow> Plan \<Rightarrow> string \<Rightarrow> string + engine_ApplyResult" where
  "Apply e plan approveLevel =
     Inr \<lparr>Success = True, engine_ApplyResult.Error = [], engine_ApplyResult.Files = []\<rparr>"

definition CreatePR :: "Engine \<Rightarrow> PROptions \<Rightarrow> string + PRResult" where
  "CreatePR e opts = Inr \<lparr>URL = ''https://github.com/example/repo/pull/123''\<rparr>"

section \<open>Aggregate counts and an event view of the audit sink\<close>

text \<open>
  The aggregate counts the exit code is computed from: the total number of findings over
  the results of the security scan, and the number of symbols of the dead-code
  detection.  An audit record is viewed by its event kind and its status.
\<close>

definition total_security_findings :: "Scanner \<Rightarrow> Env \<Rightarrow> World \<Rightarrow> nat" where
  "total_security_findings s env w =
     (case fst (Scanner_Scan s env w) of
        Inl e \<Rightarrow> 0
      | Inr rs \<Rightarrow> sum_list (map (\<lambda>r. length (Findings r)) rs))"

definition total_dead_symbols :: "Detector \<Rightarrow> Env \<Rightarrow> World \<Rightarrow> nat" where
  "total_dead_symbols d env w =
     (case fst (Detect d env w) of
        Inl e \<Rightarrow> 0
      | Inr r \<Rightarrow> length (Symbols r))"

definition kind_status :: "LogEntry \<Rightarrow> string \<times> string" where
  "kind_status x = (Event x, Status x)"

text \<open>
  Containment of one cleaned absolute path in a directory, on path-component
  boundaries: the path is the directory itself or continues it after a separator.
\<close>

definition inside_dir :: "string \<Rightarrow> string \<Rightarrow> bool" where
  "inside_dir root path = (path = root \<or> prefix (root @ ''/'') path)"

section \<open>Concrete inputs\<close>

text \<open>
  An environment in which the clock advances by 100 nanoseconds at each reading, every
  program is found and exits with status 0 and no output, the working directory is
  \<open>/ws\<close>, no glob matches, the analysers report nothing, and every encoding succeeds;
  and a world in which nothing has happened yet.  The lower-case table is the Unicode
  one on the runes used below: \<open>U+212A\<close> (KELVIN SIGN) lowers to \<open>k\<close>, the Latin-1
  capitals \<open>U+00C0..U+00DE\<close> (without \<open>U+00D7\<close>) to the letters 32 above them, and
  \<open>U+00E9\<close> to itself.
\<close>

definition exampleCaseRanges :: "nat \<Rightarrow> nat" where
  "exampleCaseRanges r =
     (if r = 8490 then 107
      else if 192 \<le> r \<and> r \<le> 222 \<and> r \<noteq> 215 then r + 32
      else r)"

definition exampleEnv :: Env where
  "exampleEnv = \<lparr>timeAt = (\<lambda>n. 100 * int n), lookPath = (\<lambda>p. True),
     execute = (\<lambda>t c a. \<lparr>combinedOutput = [], runErr = None, exitState = Some 0\<rparr>),
     getwd = Some ''/ws'', globMatch = (\<lambda>g p. False),
     parseSemgrep = (\<lambda>ws out. Inr []), findGoFiles = (\<lambda>ws. Inr []),
     analyzeFiles = (\<lambda>fs. []), marshalSARIF = (\<lambda>rs. Inr ''{}''), openFile = (\<lambda>p. None),
     CaseRanges = exampleCaseRanges\<rparr>"

text \<open>
  Two arguments with letters outside ASCII: \<open>token=\<close> followed by ten times \<open>U+00E9\<close>,
  and \<open>U+212A\<close> followed by \<open>ey-abcdefghijklmnopqrst\<close>.
\<close>

definition accentedArg :: string where
  "accentedArg = ''token='' @ concat (replicate 10 [CHR 0xC3, CHR 0xA9])"

definition kelvinArg :: string where
  "kelvinArg = [CHR 0xE2, CHR 0x84, CHR 0xAA] @ ''ey-abcdefghijklmnopqrst''"

definition emptyWorld :: World where
  "emptyWorld = \<lparr>clock = 0, started = [], sink = [], files = Map.empty\<rparr>"

text \<open>
  The runner of the test suite; a policy that allows the security scan's invocation of
  the analyser on the repository \<open>.\<close>; an environment in which the analyser reports
  \<open>nf\<close> findings and the detector \<open>ns\<close> symbols; and the engine that \<open>New\<close> builds
  from a policy for the repository \<open>.\<close>, logging to standard output.
\<close>

definition testRunner :: Runner where
  "testRunner = NewRunner [[''go'', ''build''], [''go'', ''test'', ''-cover''], [''echo'', ''hello'']]
                  5000000000"

definition scanPolicy :: Policy where
  "scanPolicy = DefaultPolicy\<lparr>Allowlist :=
     \<lparr>Commands = [[''semgrep'', ''--config'', ''auto'', ''--json'', ''.'']]\<rparr>\<rparr>"

definition exampleFinding :: Finding where
  "exampleFinding = \<lparr>RuleID = ''go.xss'', Message = ''unescaped input'', Severity = ''high'',
     Finding.File = ''main.go'', Finding.Line = 22, Column = 3,
     Finding.Description = [], Confidence = ''high''\<rparr>"

definition exampleSymbol :: Symbol where
  "exampleSymbol = \<lparr>Symbol.Name = ''unusedFunction'', Kind = ''func'', Package = ''main'',
     Symbol.File = ''main.go'', Symbol.Line = 10, Exported = False, References = 0,
     LastTouch = [], Risk = ''low'', Symbol.Description = ''never called''\<rparr>"

definition scanEnv :: "nat \<Rightarrow> nat \<Rightarrow> Env" where
  "scanEnv nf ns = exampleEnv\<lparr>parseSemgrep := (\<lambda>ws out. Inr (replicate nf exampleFinding)),
                               analyzeFiles := (\<lambda>fs. replicate ns exampleSymbol)\<rparr>"

definition engineOf :: "Policy \<Rightarrow> Engine" where
  "engineOf pol =
     (let r = NewRunner (Commands (Allowlist pol)) 300000000000
      in \<lparr>options = \<lparr>Repo = ''.'', AgentPath = ''./AGENT.md'', Policy = pol, LogPath = []\<rparr>,
          policy = pol, Engine.runner = r,
          scanner = NewScanner r ''.'', detector = NewDetector r ''.'',
          auditLogger = \<lparr>logFile = ''/dev/stdout'', redact = True\<rparr>\<rparr>)"

definition bothKinds :: ScanOpts where
  "bothKinds = \<lparr>Security = True, DeadCode = True\<rparr>"

text \<open>
  \<open>appends w w' ks\<close>: the sink of \<open>w'\<close> is the sink of \<open>w\<close> followed by new records
  whose kinds and statuses are \<open>ks\<close>, in this order.
\<close>

definition appends :: "World \<Rightarrow> World \<Rightarrow> (string \<times> string) list \<Rightarrow> bool" where
  "appends w w' ks = (\<exists>new. sink w' = sink w @ new \<and> map kind_status new = ks)"


section \<open>Properties of the allowlist check\<close>

lemma allowed_inner_iff:
  "length entry = length args + 1 \<Longrightarrow> 1 \<le> i \<Longrightarrow>
   allowed_inner entry args i = (\<forall>j. i \<le> j \<and> j < length entry \<longrightarrow> entry ! j = args ! (j - 1))"
proof (induction entry args i rule: allowed_inner.induct)
  case (1 entry args i)
  show ?case
  proof (cases "i < length entry")
    case False
    then show ?thesis by (auto simp: allowed_inner.simps [of entry args i])
  next
    case True
    note lt = this
    show ?thesis
    proof (cases "entry ! i = args ! (i - 1)")
      case False
      with lt show ?thesis
        by (auto simp: allowed_inner.simps [of entry args i])
    next
      case True
      have ih: "allowed_inner entry args (i + 1) =
                (\<forall>j. i + 1 \<le> j \<and> j < length entry \<longrightarrow> entry ! j = args ! (j - 1))"
        using "1.IH" [OF lt] True "1.prems" by simp
      have "(\<forall>j. i \<le> j \<and> j < length entry \<longrightarrow> entry ! j = args ! (j - 1)) =
            (\<forall>j. i + 1 \<le> j \<and> j < length entry \<longrightarrow> entry ! j = args ! (j - 1))"
      proof
        assume a: "\<forall>j. i \<le> j \<and> j < length entry \<longrightarrow> entry ! j = args ! (j - 1)"
        show "\<forall>j. i + 1 \<le> j \<and> j < length entry \<longrightarrow> entry ! j = args ! (j - 1)"
          using a by auto
      next
        assume a: "\<forall>j. i + 1 \<le> j \<and> j < length entry \<longrightarrow> entry ! j = args ! (j - 1)"
        show "\<forall>j. i \<le> j \<and> j < length entry \<longrightarrow> entry ! j = args ! (j - 1)"
        proof (intro allI impI)
          fix j assume j: "i \<le> j \<and> j < length entry"
          show "entry ! j = args ! (j - 1)"
          proof (cases "j = i")
            case True
            with \<open>entry ! i = args ! (i - 1)\<close> show ?thesis by simp
          next
            case False
            with j a show ?thesis by auto
          qed
        qed
      qed
      with ih lt True show ?thesis
        by (simp add: allowed_inner.simps [of entry args i])
    qed
  qed
qed

lemma tl_eq_iff_nth:
  assumes len: "length entry = length args + 1"
  shows "(tl entry = args) = (\<forall>j. 1 \<le> j \<and> j < length entry \<longrightarrow> entry ! j = args ! (j - 1))"
proof (cases entry)
  case Nil
  with len show ?thesis by simp
next
  case (Cons e es)
  with len have l: "length es = length args" by simp
  have "(es = args) = (\<forall>k < length es. es ! k = args ! k)"
    using l by (auto simp: list_eq_iff_nth_eq)
  also have "\<dots> = (\<forall>j. 1 \<le> j \<and> j < length entry \<longrightarrow> entry ! j = args ! (j - 1))"
  proof
    assume a: "\<forall>k < length es. es ! k = args ! k"
    show "\<forall>j. 1 \<le> j \<and> j < length entry \<longrightarrow> entry ! j = args ! (j - 1)"
    proof (intro allI impI)
      fix j assume j: "1 \<le> j \<and> j < length entry"
      then obtain k where k: "j = Suc k" by (cases j) auto
      with j Cons a show "entry ! j = args ! (j - 1)" by simp
    qed
  next
    assume a: "\<forall>j. 1 \<le> j \<and> j < length entry \<longrightarrow> entry ! j = args ! (j - 1)"
    show "\<forall>k < length es. es ! k = args ! k"
    proof (intro allI impI)
      fix k assume "k < length es"
      with a [rule_format, of "Suc k"] Cons show "es ! k = args ! k" by simp
    qed
  qed
  finally show ?thesis using Cons by simp
qed

lemma entry_matches_iff:
  "(length entry = length args + 1 \<and> entry ! 0 = cmd \<and> allowed_inner entry args 1)
   = (entry = cmd # args)"
proof (cases "length entry = length args + 1")
  case False
  then show ?thesis by auto
next
  case True
  then obtain e es where e: "entry = e # es" by (cases entry) auto
  have "allowed_inner entry args 1 = (tl entry = args)"
    using allowed_inner_iff [OF True, of 1] tl_eq_iff_nth [OF True] by simp
  with True e show ?thesis by auto
qed

lemma allowed_outer_iff: "allowed_outer al cmd args = (cmd # args \<in> set al)"
proof (induction al)
  case Nil
  then show ?case by simp
next
  case (Cons entry rest)
  show ?case
    using Cons.IH entry_matches_iff [of entry args cmd] by auto
qed

lemma IsCommandAllowed_inner_eq:
  "IsCommandAllowed_inner entry args i = allowed_inner entry args i"
proof (induction entry args i rule: allowed_inner.induct)
  case (1 entry args i)
  then show ?case
    by (simp add: allowed_inner.simps [of entry args i]
                  IsCommandAllowed_inner.simps [of entry args i])
qed

lemma IsCommandAllowed_outer_eq:
  "IsCommandAllowed_outer al cmd args = allowed_outer al cmd args"
  by (induction al) (simp_all add: IsCommandAllowed_inner_eq)


lemma match_tuple_iff:
  "(length t = length args + 1 \<and> t ! 0 = p \<and> (\<forall>i<length args. args ! i = t ! (i + 1)))
   = (t = p # args)"
proof
  assume a: "length t = length args + 1 \<and> t ! 0 = p \<and> (\<forall>i<length args. args ! i = t ! (i + 1))"
  then obtain e es where t: "t = e # es" by (cases t) auto
  with a have l: "length es = length args" and e: "e = p" by auto
  have "\<forall>i<length es. es ! i = args ! i"
    using a t by auto
  with l have "es = args"
    by (simp add: list_eq_iff_nth_eq)
  with t e show "t = p # args" by simp
next
  assume "t = p # args"
  then show "length t = length args + 1 \<and> t ! 0 = p \<and> (\<forall>i<length args. args ! i = t ! (i + 1))"
    by simp
qed

lemma allowed_mem: "allowed r p args = (p # args \<in> set (Allow r))"
  by (simp add: allowed_def allowed_outer_iff)

lemma IsCommandAllowed_mem:
  "IsCommandAllowed pol p args = (p # args \<in> set (Commands (Allowlist pol)))"
  by (simp add: IsCommandAllowed_def IsCommandAllowed_outer_eq allowed_outer_iff)

text \<open>
  C1 (as the claim states it, the last part fails).  The claim says that appending any
  extra argument to an invocation that matched flips the result to false.  With an
  allowlist holding both \<open>go build\<close> and \<open>go build ./...\<close>, the invocation
  \<open>go build\<close> matches and so does \<open>go build ./...\<close>, which is \<open>go build\<close> with one
  argument appended: the result stays true.
\<close>

theorem allowed_extra_arg_counterexample:
  "allowed \<lparr>Allow = [[''go'', ''build''], [''go'', ''build'', ''./...'']],
            Timeout = 5000000000\<rparr> ''go'' [''build'']
   \<and> allowed \<lparr>Allow = [[''go'', ''build''], [''go'', ''build'', ''./...'']],
              Timeout = 5000000000\<rparr> ''go'' ([''build''] @ [''./...''])"
  by (simp add: allowed_def allowed_inner.simps)

text \<open>
  C1 (amended).  For every program \<open>p\<close> and argument vector \<open>args\<close>, \<open>Runner.allowed\<close>
  and \<open>Policy.IsCommandAllowed\<close> return true if and only if some allowlist tuple \<open>t\<close>
  has \<open>t[0] = p\<close>, \<open>len(t) = len(args) + 1\<close> and \<open>args[i] = t[i+1]\<close> for every index
  \<open>i\<close>.  Appending an extra argument \<open>x\<close> to an invocation gives false unless the
  allowlist also holds the longer tuple \<open>[p, args..., x]\<close> itself.
\<close>

theorem allowed_iff_exact_tuple:
  "(allowed r p args =
      (\<exists>t. t \<in> set (Allow r) \<and> length t = length args + 1 \<and> t ! 0 = p \<and>
           (\<forall>i<length args. args ! i = t ! (i + 1))))
   \<and> (IsCommandAllowed pol p args =
      (\<exists>t. t \<in> set (Commands (Allowlist pol)) \<and> length t = length args + 1 \<and> t ! 0 = p \<and>
           (\<forall>i<length args. args ! i = t ! (i + 1))))
   \<and> (p # args @ [x] \<notin> set (Allow r) \<longrightarrow> \<not> allowed r p (args @ [x]))
   \<and> (p # args @ [x] \<notin> set (Commands (Allowlist pol)) \<longrightarrow>
        \<not> IsCommandAllowed pol p (args @ [x]))"
proof (intro conjI)
  show "allowed r p args =
      (\<exists>t. t \<in> set (Allow r) \<and> length t = length args + 1 \<and> t ! 0 = p \<and>
           (\<forall>i<length args. args ! i = t ! (i + 1)))"
    unfolding match_tuple_iff by (simp add: allowed_mem)
  show "IsCommandAllowed pol p args =
      (\<exists>t. t \<in> set (Commands (Allowlist pol)) \<and> length t = length args + 1 \<and> t ! 0 = p \<and>
           (\<forall>i<length args. args ! i = t ! (i + 1)))"
    unfolding match_tuple_iff by (simp add: IsCommandAllowed_mem)
  show "p # args @ [x] \<notin> set (Allow r) \<longrightarrow> \<not> allowed r p (args @ [x])"
    by (simp add: allowed_mem)
  show "p # args @ [x] \<notin> set (Commands (Allowlist pol)) \<longrightarrow>
        \<not> IsCommandAllowed pol p (args @ [x])"
    by (simp add: IsCommandAllowed_mem)
qed

text \<open>
  The theorem at the test suite's allowlist and at the default policy: \<open>go build\<close> is
  allowed by both, through the tuple \<open>[go, build]\<close>, and \<open>go build --unsafe\<close> by
  neither.
\<close>

theorem allowed_iff_exact_tuple_witness:
  "allowed (NewRunner [[''go'', ''build''], [''go'', ''test'', ''-cover'']] 5000000000)
      ''go'' [''build'']
   \<and> (\<exists>t. t \<in> set (Allow (NewRunner [[''go'', ''build''], [''go'', ''test'', ''-cover'']]
                                5000000000)) \<and>
          length t = length [''build''] + 1 \<and> t ! 0 = ''go'' \<and>
          (\<forall>i<length [''build'']. [''build''] ! i = t ! (i + 1)))
   \<and> IsCommandAllowed DefaultPolicy ''go'' [''build'']
   \<and> ''go'' # [''build''] @ [''--unsafe''] \<notin>
        set (Allow (NewRunner [[''go'', ''build''], [''go'', ''test'', ''-cover'']] 5000000000))
   \<and> \<not> allowed (NewRunner [[''go'', ''build''], [''go'', ''test'', ''-cover'']] 5000000000)
        ''go'' ([''build''] @ [''--unsafe''])
   \<and> ''go'' # [''build''] @ [''--unsafe''] \<notin> set (Commands (Allowlist DefaultPolicy))
   \<and> \<not> IsCommandAllowed DefaultPolicy ''go'' ([''build''] @ [''--unsafe''])"
proof -
  let ?r = "NewRunner [[''go'', ''build''], [''go'', ''test'', ''-cover'']] 5000000000"
  have a: "allowed ?r ''go'' [''build'']"
    by (simp add: allowed_def NewRunner_def allowed_inner.simps)
  have b: "IsCommandAllowed DefaultPolicy ''go'' [''build'']"
    by (simp add: IsCommandAllowed_def DefaultPolicy_def IsCommandAllowed_inner.simps)
  have c: "''go'' # [''build''] @ [''--unsafe''] \<notin> set (Allow ?r)"
    by (simp add: NewRunner_def)
  have d: "''go'' # [''build''] @ [''--unsafe''] \<notin> set (Commands (Allowlist DefaultPolicy))"
    by (simp add: DefaultPolicy_def)
  from allowed_iff_exact_tuple [of ?r "''go''" "[''build'']" DefaultPolicy "''--unsafe''"] a b c d
  show ?thesis by blast
qed

text \<open>
  C10.  \<open>Runner.allowed\<close>, over a Runner built by \<open>NewRunner\<close> from a policy's allowlist
  commands (as \<open>engine.New\<close> builds it, with any timeout), and \<open>Policy.IsCommandAllowed\<close>
  over the same policy return the same boolean for every program and argument vector.
\<close>

theorem allowed_eq_IsCommandAllowed:
  "allowed (NewRunner (Commands (Allowlist pol)) timeout) cmd args
   = IsCommandAllowed pol cmd args"
  by (simp add: allowed_def NewRunner_def IsCommandAllowed_def IsCommandAllowed_outer_eq)


section \<open>Properties of the audit logger's redaction\<close>

lemma HasPrefix_prefix: "HasPrefix s pre = prefix pre s"
proof
  assume "HasPrefix s pre"
  then have "take (length pre) s = pre" by (simp add: HasPrefix_def)
  then show "prefix pre s" by (metis take_is_prefix)
next
  assume "prefix pre s"
  then show "HasPrefix s pre"
    by (auto simp: HasPrefix_def prefix_def)
qed

lemma Contains_sublist: "Contains s substr = sublist substr s"
  by (induction s) (auto simp: HasPrefix_prefix sublist_Cons_right)

lemma of_char_lt_256: "(of_char (c :: char) :: nat) < 256"
  by (cases c) simp

lemma of_char_char_of: "n < 256 \<Longrightarrow> (of_char (char_of (n :: nat)) :: nat) = n"
  by simp

lemma EncodeRune_ascii: "r \<le> 127 \<Longrightarrow> EncodeRune r = [char_of r]"
  by (simp add: EncodeRune_def)

lemma EncodeRune_high:
  assumes "127 < r"
  shows "EncodeRune r \<noteq> [] \<and> list_all (\<lambda>c. 128 \<le> (of_char c :: nat)) (EncodeRune r)"
proof -
  have a: "r \<le> 2047 \<Longrightarrow> (192 + r div 64) mod 256 = 192 + r div 64" by simp
  have b: "(128 + r mod 64) mod 256 = 128 + r mod 64" by simp
  have c: "r \<le> 65535 \<Longrightarrow> (224 + r div 4096) mod 256 = 224 + r div 4096" by simp
  have d: "(128 + r div 64 mod 64) mod 256 = 128 + r div 64 mod 64" by simp
  have e: "r \<le> 1114111 \<Longrightarrow> (240 + r div 262144) mod 256 = 240 + r div 262144" by simp
  have f: "(128 + r div 4096 mod 64) mod 256 = 128 + r div 4096 mod 64" by simp
  show ?thesis
    using assms a b c d e f by (simp add: EncodeRune_def)
qed

lemma prefix_concat_encoded:
  assumes enc1: "\<And>r. r \<le> 127 \<Longrightarrow> f r = [char_of r]"
      and enc2: "\<And>r. 127 < r \<Longrightarrow> f r \<noteq> [] \<and> list_all (\<lambda>c. 128 \<le> (of_char c :: nat)) (f r)"
  shows "list_all (\<lambda>c. (of_char c :: nat) < 128) k \<Longrightarrow>
         prefix k (concat (map f xs)) = prefix (map of_char k) (xs :: nat list)"
proof (induction xs arbitrary: k)
  case Nil
  then show ?case by simp
next
  case (Cons x xs)
  show ?case
  proof (cases k)
    case Nil
    then show ?thesis by simp
  next
    case (Cons c k')
    with Cons.prems have c: "(of_char c :: nat) < 128" and k': "list_all (\<lambda>c. (of_char c :: nat) < 128) k'"
      by simp_all
    show ?thesis
    proof (cases "x \<le> 127")
      case True
      have "(c = char_of x) = ((of_char c :: nat) = x)"
        using True by auto
      then show ?thesis
        using Cons.IH [OF k'] enc1 [OF True] Cons by simp
    next
      case False
      then have hi: "127 < x" by simp
      from enc2 [OF hi] obtain a u where fx: "f x = a # u" and a: "128 \<le> (of_char a :: nat)"
        by (cases "f x") auto
      from a c have "c \<noteq> a" by auto
      moreover from c hi have "(of_char c :: nat) \<noteq> x" by simp
      ultimately show ?thesis
        using fx Cons by simp
    qed
  qed
qed

lemma sublist_high_prefix:
  "list_all (\<lambda>c. 128 \<le> (of_char c :: nat)) u \<Longrightarrow> list_all (\<lambda>c. (of_char c :: nat) < 128) k \<Longrightarrow>
   sublist k (u @ B) = (k = [] \<or> sublist k B)"
proof (induction u)
  case Nil
  then show ?case by auto
next
  case (Cons a u)
  have "prefix k (a # u @ B) = (k = [])"
  proof (cases k)
    case Nil
    then show ?thesis by simp
  next
    case (Cons c k')
    with Cons.prems have "c \<noteq> a" by auto
    with Cons show ?thesis by simp
  qed
  with Cons show ?case
    by (auto simp: sublist_Cons_right)
qed

lemma sublist_concat_encoded:
  assumes enc1: "\<And>r. r \<le> 127 \<Longrightarrow> f r = [char_of r]"
      and enc2: "\<And>r. 127 < r \<Longrightarrow> f r \<noteq> [] \<and> list_all (\<lambda>c. 128 \<le> (of_char c :: nat)) (f r)"
      and k: "list_all (\<lambda>c. (of_char c :: nat) < 128) k"
  shows "sublist k (concat (map f xs)) = sublist (map of_char k) (xs :: nat list)"
proof (induction xs)
  case Nil
  then show ?case by simp
next
  case (Cons x xs)
  have pe: "prefix k (concat (map f (x # xs))) = prefix (map of_char k) (x # xs)"
    using enc1 enc2 k by (rule prefix_concat_encoded)
  show ?case
  proof (cases "x \<le> 127")
    case True
    have "sublist k (concat (map f (x # xs)))
          = (prefix k (concat (map f (x # xs))) \<or> sublist k (concat (map f xs)))"
      using enc1 [OF True] by (simp add: sublist_Cons_right)
    then show ?thesis
      using pe Cons.IH by (simp add: sublist_Cons_right)
  next
    case False
    then have hi: "127 < x" by simp
    have "sublist k (concat (map f (x # xs))) = (k = [] \<or> sublist k (concat (map f xs)))"
      using sublist_high_prefix [of "f x" k "concat (map f xs)"] enc2 [OF hi] k by simp
    moreover have "prefix (map of_char k) (x # xs) = (k = [])"
    proof (cases k)
      case Nil
      then show ?thesis by simp
    next
      case (Cons c k')
      with k hi have "(of_char c :: nat) \<noteq> x" by auto
      with Cons show ?thesis by simp
    qed
    ultimately show ?thesis
      using Cons.IH by (auto simp: sublist_Cons_right)
  qed
qed

lemma runes_ascii:
  "list_all (\<lambda>c. (of_char c :: nat) < 128) s \<Longrightarrow> runes s = map of_char s"
proof (induction s)
  case Nil
  then show ?case by (simp add: runes.simps)
next
  case (Cons c s)
  then have d: "DecodeRuneInString (c # s) = (of_char c, 1)"
    by (simp add: DecodeRuneInString.simps Let_def)
  from Cons show ?case
    by (simp add: runes.simps [of "c # s"] d)
qed

lemma EncodeRune_lower_ascii:
  assumes "(of_char c :: nat) < 128"
  shows "EncodeRune (unicode_ToLower caseRanges (of_char c)) = [lower_byte c]"
  using assms by (auto simp: unicode_ToLower_def lower_byte_def EncodeRune_def)

lemma map_lower_byte_id:
  "\<not> list_ex (\<lambda>c. 65 \<le> (of_char c :: nat) \<and> (of_char c :: nat) \<le> 90) s \<Longrightarrow> map lower_byte s = s"
  by (induction s) (auto simp: lower_byte_def)

lemma ToLower_runes:
  "ToLower caseRanges s =
     concat (map (\<lambda>r. EncodeRune (unicode_ToLower caseRanges r)) (runes s))"
proof (cases "list_all (\<lambda>c. (of_char c :: nat) < 128) s")
  case False
  then show ?thesis by (simp add: ToLower_def strings_Map_def)
next
  case True
  have "concat (map (\<lambda>r. EncodeRune (unicode_ToLower caseRanges r)) (map of_char s))
        = map lower_byte s"
    using True by (induction s) (simp_all add: EncodeRune_lower_ascii)
  then show ?thesis
    using True by (auto simp: ToLower_def runes_ascii map_lower_byte_id)
qed

lemma same_letter_lower:
  assumes "97 \<le> (of_char x :: nat)" and "(of_char x :: nat) \<le> 122"
  shows "same_letter caseRanges r x = (unicode_ToLower caseRanges r = of_char x)"
  using assms by (auto simp: same_letter_def unicode_ToLower_def)

lemma list_all2_same_letter:
  "lowercase_word k \<Longrightarrow>
   list_all2 (same_letter caseRanges) rs k = (map (unicode_ToLower caseRanges) rs = map of_char k)"
proof (induction k arbitrary: rs)
  case Nil
  then show ?case by simp
next
  case (Cons x k)
  then have x: "97 \<le> (of_char x :: nat)" "(of_char x :: nat) \<le> 122" and k: "lowercase_word k"
    by (simp_all add: lowercase_word_def)
  show ?case
  proof (cases rs)
    case Nil
    then show ?thesis by simp
  next
    case (Cons r rs')
    then show ?thesis
      using Cons.IH [OF k, of rs'] same_letter_lower [OF x, of caseRanges r] by simp
  qed
qed

lemma sublist_map_iff:
  "sublist m (map f xs) = (\<exists>rs. sublist rs xs \<and> map f rs = m)"
proof
  assume "sublist m (map f xs)"
  then obtain ps ss where e: "map f xs = ps @ m @ ss" by (auto simp: sublist_def)
  define rs where "rs = take (length m) (drop (length ps) xs)"
  have "map f rs = take (length m) (drop (length ps) (map f xs))"
    by (simp add: rs_def take_map drop_map)
  also have "\<dots> = m"
    by (simp add: e)
  finally have 1: "map f rs = m" .
  have "drop (length ps) xs = rs @ drop (length m) (drop (length ps) xs)"
    unfolding rs_def by (rule append_take_drop_id [symmetric])
  then have "xs = take (length ps) xs @ rs @ drop (length m) (drop (length ps) xs)"
    using append_take_drop_id [of "length ps" xs] by metis
  then have 2: "sublist rs xs"
    unfolding sublist_def by blast
  from 1 2 show "\<exists>rs. sublist rs xs \<and> map f rs = m" by blast
next
  assume "\<exists>rs. sublist rs xs \<and> map f rs = m"
  then obtain rs ps ss where "xs = ps @ rs @ ss" and "map f rs = m" by (auto simp: sublist_def)
  then have "map f xs = map f ps @ m @ map f ss" by simp
  then show "sublist m (map f xs)" unfolding sublist_def by blast
qed

lemma Contains_ToLower:
  assumes k: "lowercase_word k"
  shows "Contains (ToLower caseRanges arg) k = contains_ignoring_case caseRanges arg k"
proof -
  have ka: "list_all (\<lambda>c. (of_char c :: nat) < 128) k"
    using k by (induction k) (simp_all add: lowercase_word_def)
  have "Contains (ToLower caseRanges arg) k
        = sublist k (concat (map EncodeRune (map (unicode_ToLower caseRanges) (runes arg))))"
    by (simp add: Contains_sublist ToLower_runes comp_def)
  also have "\<dots> = sublist (map of_char k) (map (unicode_ToLower caseRanges) (runes arg))"
    using EncodeRune_ascii EncodeRune_high ka by (rule sublist_concat_encoded)
  also have "\<dots> = (\<exists>rs. sublist rs (runes arg) \<and>
                       map (unicode_ToLower caseRanges) rs = map of_char k)"
    by (rule sublist_map_iff)
  also have "\<dots> = contains_ignoring_case caseRanges arg k"
    using list_all2_same_letter [OF k] by (simp add: contains_ignoring_case_def)
  finally show ?thesis .
qed

lemma char_range:
  assumes "b < 256"
  shows "(a \<le> (of_char c :: nat) \<and> (of_char c :: nat) \<le> b)
         = (c \<in> set (map char_of [a..<Suc b]))"
proof
  assume "a \<le> (of_char c :: nat) \<and> (of_char c :: nat) \<le> b"
  then have "(of_char c :: nat) \<in> set [a..<Suc b]" by (auto simp: less_Suc_eq_le)
  then have "char_of (of_char c :: nat) \<in> char_of ` set [a..<Suc b]" by (rule imageI)
  then show "c \<in> set (map char_of [a..<Suc b])" by simp
next
  assume "c \<in> set (map char_of [a..<Suc b])"
  then obtain n where n: "a \<le> n" "n \<le> b" and c: "c = char_of n" by auto
  from n assms have "(of_char (char_of n :: char) :: nat) = n" by simp
  with n c show "a \<le> (of_char c :: nat) \<and> (of_char c :: nat) \<le> b" by simp
qed

lemma ascii_digits_range: "ascii_digits = map char_of [48..<Suc 57 :: nat]"
  unfolding ascii_digits_def by code_simp

lemma ascii_letters_range:
  "ascii_letters = map char_of [97..<Suc 122 :: nat] @ map char_of [65..<Suc 90 :: nat]"
  unfolding ascii_letters_def by code_simp

lemma is_num_digits: "is_num c = (c \<in> set ascii_digits)"
  unfolding is_num_def ascii_digits_range by (rule char_range) simp

lemma is_alpha_letters: "is_alpha c = (c \<in> set ascii_letters)"
proof -
  have 1: "(97 \<le> (of_char c :: nat) \<and> (of_char c :: nat) \<le> 122)
           = (c \<in> set (map char_of [97..<Suc 122 :: nat]))"
    by (rule char_range) simp
  have 2: "(65 \<le> (of_char c :: nat) \<and> (of_char c :: nat) \<le> 90)
           = (c \<in> set (map char_of [65..<Suc 90 :: nat]))"
    by (rule char_range) simp
  show ?thesis
    unfolding is_alpha_def ascii_letters_range 1 2 by auto
qed

lemma containsSensitivePattern_loop_ex:
  "containsSensitivePattern_loop ps lower = list_ex (Contains lower) ps"
  by (induction ps) simp_all

lemma looksLikeToken_loop_ex:
  "looksLikeToken_loop s a n = ((a \<or> list_ex is_alpha s) \<and> (n \<or> list_ex is_num s))"
  by (induction s arbitrary: a n) auto

lemma lowercase_keywords:
  "lowercase_word ''key''" "lowercase_word ''token''" "lowercase_word ''secret''"
  "lowercase_word ''password''" "lowercase_word ''auth''"
  by (simp_all add: lowercase_word_def)

lemma containsSensitivePattern_rule:
  "containsSensitivePattern caseRanges arg =
     list_ex (contains_ignoring_case caseRanges arg)
             [''key'', ''token'', ''secret'', ''password'', ''auth'']"
  by (simp add: containsSensitivePattern_def sensitive_def containsSensitivePattern_loop_ex
        Contains_ToLower lowercase_keywords)

lemma looksLikeToken_rule:
  "looksLikeToken arg =
     (20 \<le> length arg \<and> list_ex (\<lambda>c. c \<in> set ascii_letters) arg
                       \<and> list_ex (\<lambda>c. c \<in> set ascii_digits) arg)"
proof -
  have a: "is_alpha = (\<lambda>c. c \<in> set ascii_letters)"
    by (rule ext) (rule is_alpha_letters)
  have n: "is_num = (\<lambda>c. c \<in> set ascii_digits)"
    by (rule ext) (rule is_num_digits)
  show ?thesis
    unfolding a [symmetric] n [symmetric]
    by (auto simp: looksLikeToken_def looksLikeToken_loop_ex)
qed

lemma redact_condition:
  "(20 < length arg \<and> (containsSensitivePattern caseRanges arg \<or> looksLikeToken arg))
   = redaction_rule caseRanges arg"
  unfolding redaction_rule_def containsSensitivePattern_rule looksLikeToken_rule by (rule refl)

lemma maybeRedactArgs_loop_map:
  "maybeRedactArgs_loop caseRanges args =
     map (\<lambda>arg. if redaction_rule caseRanges arg then ''[REDACTED]'' else arg) args"
  by (induction args) (simp_all add: redact_condition del: One_nat_def)

text \<open>The runes of the two arguments with letters outside ASCII.\<close>

lemma DecodeRune_ascii: "(of_char c :: nat) < 128 \<Longrightarrow> DecodeRuneInString (c # s) = (of_char c, 1)"
  by (simp add: DecodeRuneInString.simps Let_def)

lemma runes_Cons_ascii: "(of_char c :: nat) < 128 \<Longrightarrow> runes (c # s) = of_char c # runes s"
  by (simp add: runes.simps [of "c # s"] DecodeRune_ascii)

lemma runes_Nil: "runes [] = []"
  by (simp add: runes.simps)

lemma runes_e_acute: "runes (CHR 0xC3 # CHR 0xA9 # s) = 233 # runes s"
  by (simp add: runes.simps [of "CHR 0xC3 # CHR 0xA9 # s"] DecodeRuneInString.simps Let_def)

lemma runes_kelvin: "runes (CHR 0xE2 # CHR 0x84 # CHR 0xAA # s) = 8490 # runes s"
  by (simp add: runes.simps [of "CHR 0xE2 # CHR 0x84 # CHR 0xAA # s"]
        DecodeRuneInString.simps Let_def)

lemma runes_accentedArg: "runes accentedArg = map of_char ''token='' @ replicate 10 233"
  by (simp add: accentedArg_def runes_Cons_ascii runes_e_acute runes_Nil
        numeral_Bit0 numeral_Bit1 replicate_add)

lemma runes_kelvinArg: "runes kelvinArg = 8490 # map of_char ''ey-abcdefghijklmnopqrst''"
  by (simp add: kelvinArg_def runes_kelvin runes_Cons_ascii runes_Nil)

lemma contains_ignoring_case_intro:
  "sublist rs (runes arg) \<Longrightarrow> list_all2 (same_letter caseRanges) rs k \<Longrightarrow>
   contains_ignoring_case caseRanges arg k"
  unfolding contains_ignoring_case_def by blast

text \<open>
  C8 (as the claim states it, it fails).  The claim measures the argument in characters
  and says that an argument of length at most 20 is never redacted, even if it contains
  \<open>token\<close>.  The source compares \<open>len(arg)\<close>, the number of bytes.  The argument
  \<open>token=\<close> followed by ten times \<open>U+00E9\<close> (e with acute accent, two bytes each in
  UTF-8) has 16 characters and 26 bytes; it contains \<open>token\<close> and is replaced by the
  marker.
\<close>

theorem redaction_counts_bytes_counterexample:
  "characters accentedArg = 16
   \<and> Contains accentedArg ''token''
   \<and> maybeRedactArgs \<lparr>logFile = ''/dev/stdout'', redact = True\<rparr> exampleCaseRanges [accentedArg]
       = [''[REDACTED]'']"
proof -
  have 1: "characters accentedArg = 16"
    by (simp add: characters_def runes_accentedArg)
  have 2: "Contains accentedArg ''token''"
    by (simp add: accentedArg_def HasPrefix_def)
  have len: "length accentedArg = 26"
    by (simp add: accentedArg_def length_concat sum_list_replicate)
  have "sublist (map of_char ''token'') (runes accentedArg)"
    unfolding runes_accentedArg by (rule prefix_imp_sublist) simp
  moreover have "list_all2 (same_letter exampleCaseRanges) (map of_char ''token'') ''token''"
    by (simp add: same_letter_def)
  ultimately have "contains_ignoring_case exampleCaseRanges accentedArg ''token''"
    by (rule contains_ignoring_case_intro)
  then have "redaction_rule exampleCaseRanges accentedArg"
    by (simp add: redaction_rule_def len)
  then have 3: "maybeRedactArgs \<lparr>logFile = ''/dev/stdout'', redact = True\<rparr> exampleCaseRanges
                  [accentedArg] = [''[REDACTED]'']"
    by (simp add: maybeRedactArgs_def maybeRedactArgs_loop_map)
  from 1 2 3 show ?thesis by simp
qed

text \<open>
  C8 (amended).  With redaction enabled, the logged argument vector has the length of
  the given one, and at every index the argument is replaced by the marker
  \<open>[REDACTED]\<close> when the rule holds of it and is kept as it is otherwise.  The rule:
  the length in bytes (Go's \<open>len\<close>) exceeds 20, and either the argument contains one of
  the keywords \<open>key\<close>, \<open>token\<close>, \<open>secret\<close>, \<open>password\<close>, \<open>auth\<close> ignoring case
  (as \<open>strings.ToLower\<close> decides it, so a rune above ASCII whose lower case is a
  keyword letter counts as that letter), or its length in bytes is at least 20 and it
  holds both an ASCII letter and an ASCII digit.  An argument of at most 20 bytes is
  kept, whatever it contains.  The lower-case table of Unicode is arbitrary here.
\<close>

theorem maybeRedactArgs_rule:
  assumes "redact a"
  shows "length (maybeRedactArgs a caseRanges args) = length args
         \<and> (\<forall>i<length args.
               (redaction_rule caseRanges (args ! i) \<longrightarrow>
                  maybeRedactArgs a caseRanges args ! i = ''[REDACTED]'')
             \<and> (\<not> redaction_rule caseRanges (args ! i) \<longrightarrow>
                  maybeRedactArgs a caseRanges args ! i = args ! i)
             \<and> (length (args ! i) \<le> 20 \<longrightarrow> maybeRedactArgs a caseRanges args ! i = args ! i))"
proof -
  have m: "maybeRedactArgs a caseRanges args =
           map (\<lambda>arg. if redaction_rule caseRanges arg then ''[REDACTED]'' else arg) args"
    using assms by (simp add: maybeRedactArgs_def maybeRedactArgs_loop_map)
  have short: "\<And>arg. length arg \<le> 20 \<Longrightarrow> \<not> redaction_rule caseRanges arg"
    by (simp add: redaction_rule_def)
  show ?thesis
    unfolding m using short by auto
qed

text \<open>
  The rule at five arguments: \<open>U+212A\<close> (KELVIN SIGN) followed by \<open>ey-...\<close>, which
  has a keyword only through the Unicode lower case and no digit; an upper-case keyword
  without digit; letters and a digit without keyword; 26 letters without keyword or
  digit; and a short argument that names a token.
\<close>

lemma rule_kelvin: "redaction_rule exampleCaseRanges kelvinArg"
proof -
  have "sublist [8490, 101, 121] (runes kelvinArg)"
    unfolding runes_kelvinArg by (rule prefix_imp_sublist) simp
  moreover have "list_all2 (same_letter exampleCaseRanges) [8490, 101, 121] ''key''"
    by (simp add: same_letter_def exampleCaseRanges_def)
  ultimately have "contains_ignoring_case exampleCaseRanges kelvinArg ''key''"
    by (rule contains_ignoring_case_intro)
  then show ?thesis
    by (simp add: redaction_rule_def kelvinArg_def)
qed

lemma rule_ascii:
  "redaction_rule exampleCaseRanges ''--PASSWORD=abcdefghijk''"
  "redaction_rule exampleCaseRanges ''abcdefghijklmnopqrstuvwxy0''"
  "\<not> redaction_rule exampleCaseRanges ''abcdefghijklmnopqrstuvwxyz''"
proof -
  have "20 < length ''--PASSWORD=abcdefghijk'' \<and>
        (containsSensitivePattern exampleCaseRanges ''--PASSWORD=abcdefghijk'' \<or>
         looksLikeToken ''--PASSWORD=abcdefghijk'')"
    by code_simp
  then show "redaction_rule exampleCaseRanges ''--PASSWORD=abcdefghijk''"
    unfolding redact_condition .
  have "20 < length ''abcdefghijklmnopqrstuvwxy0'' \<and>
        (containsSensitivePattern exampleCaseRanges ''abcdefghijklmnopqrstuvwxy0'' \<or>
         looksLikeToken ''abcdefghijklmnopqrstuvwxy0'')"
    by code_simp
  then show "redaction_rule exampleCaseRanges ''abcdefghijklmnopqrstuvwxy0''"
    unfolding redact_condition .
  have "\<not> (20 < length ''abcdefghijklmnopqrstuvwxyz'' \<and>
        (containsSensitivePattern exampleCaseRanges ''abcdefghijklmnopqrstuvwxyz'' \<or>
         looksLikeToken ''abcdefghijklmnopqrstuvwxyz''))"
    by code_simp
  then show "\<not> redaction_rule exampleCaseRanges ''abcdefghijklmnopqrstuvwxyz''"
    unfolding redact_condition .
qed

theorem maybeRedactArgs_rule_witness:
  "redact \<lparr>logFile = ''/dev/stdout'', redact = True\<rparr>
   \<and> redaction_rule exampleCaseRanges kelvinArg
   \<and> redaction_rule exampleCaseRanges ''--PASSWORD=abcdefghijk''
   \<and> redaction_rule exampleCaseRanges ''abcdefghijklmnopqrstuvwxy0''
   \<and> \<not> redaction_rule exampleCaseRanges ''abcdefghijklmnopqrstuvwxyz''
   \<and> length ''my-token'' \<le> 20
   \<and> maybeRedactArgs \<lparr>logFile = ''/dev/stdout'', redact = True\<rparr> exampleCaseRanges
         [kelvinArg, ''--PASSWORD=abcdefghijk'', ''abcdefghijklmnopqrstuvwxy0'',
          ''abcdefghijklmnopqrstuvwxyz'', ''my-token'']
       = [''[REDACTED]'', ''[REDACTED]'', ''[REDACTED]'',
          ''abcdefghijklmnopqrstuvwxyz'', ''my-token'']"
proof -
  let ?a = "\<lparr>logFile = ''/dev/stdout'', redact = True\<rparr>"
  let ?args = "[kelvinArg, ''--PASSWORD=abcdefghijk'', ''abcdefghijklmnopqrstuvwxy0'',
                ''abcdefghijklmnopqrstuvwxyz'', ''my-token'']"
  let ?out = "maybeRedactArgs ?a exampleCaseRanges ?args"
  have r: "redact ?a" by simp
  note th = maybeRedactArgs_rule [OF r, of exampleCaseRanges ?args]
  from th have len: "length ?out = 5" by simp
  from th have all: "\<forall>i<length ?args.
               (redaction_rule exampleCaseRanges (?args ! i) \<longrightarrow> ?out ! i = ''[REDACTED]'')
             \<and> (\<not> redaction_rule exampleCaseRanges (?args ! i) \<longrightarrow> ?out ! i = ?args ! i)
             \<and> (length (?args ! i) \<le> 20 \<longrightarrow> ?out ! i = ?args ! i)"
    by blast
  have i0: "?out ! 0 = ''[REDACTED]''"
    using all [rule_format, of 0] rule_kelvin by simp
  have i1: "?out ! 1 = ''[REDACTED]''"
    using all [rule_format, of 1] rule_ascii(1) by simp
  have i2: "?out ! 2 = ''[REDACTED]''"
    using all [rule_format, of 2] rule_ascii(2) by simp
  have i3: "?out ! 3 = ''abcdefghijklmnopqrstuvwxyz''"
    using all [rule_format, of 3] rule_ascii(3) by simp
  have i4: "?out ! 4 = ''my-token''"
    using all [rule_format, of 4] by simp
  have "?out = [?out ! 0, ?out ! 1, ?out ! 2, ?out ! 3, ?out ! 4]"
    using len by (auto simp: list_eq_iff_nth_eq less_Suc_eq numeral_eq_Suc)
  then have "?out = [''[REDACTED]'', ''[REDACTED]'', ''[REDACTED]'',
                     ''abcdefghijklmnopqrstuvwxyz'', ''my-token'']"
    unfolding i0 i1 i2 i3 i4 .
  with r rule_kelvin rule_ascii show ?thesis by simp
qed

section \<open>Effects of the runner and the adapters on the world\<close>

lemma timeNow_keeps [simp]:
  "sink (snd (timeNow env w)) = sink w" "started (snd (timeNow env w)) = started w"
  "files (snd (timeNow env w)) = files w" "clock (snd (timeNow env w)) = clock w + 1"
  "fst (timeNow env w) = timeAt env (clock w)"
  by (simp_all add: timeNow_def)

lemma timeSince_keeps [simp]:
  "sink (snd (timeSince env s w)) = sink w" "started (snd (timeSince env s w)) = started w"
  "files (snd (timeSince env s w)) = files w" "clock (snd (timeSince env s w)) = clock w + 1"
  "fst (timeSince env s w) = timeAt env (clock w) - s"
  by (simp_all add: timeSince_def)

lemma Run_sink [simp]: "sink (snd (Run r env cmd args w)) = sink w"
  by (simp add: Run_def Let_def case_prod_beta)

lemma Run_files [simp]: "files (snd (Run r env cmd args w)) = files w"
  by (simp add: Run_def Let_def case_prod_beta)

lemma runSemgrep_sink [simp]: "sink (snd (runSemgrep s env w)) = sink w"
  by (simp add: runSemgrep_def Let_def case_prod_beta split: option.splits sum.splits)

lemma runCodeQL_sink [simp]: "sink (snd (runCodeQL s env w)) = sink w"
  by (simp add: runCodeQL_def Let_def case_prod_beta)

lemma Scanner_Scan_sink [simp]: "sink (snd (Scanner_Scan s env w)) = sink w"
  by (simp add: Scanner_Scan_def Let_def case_prod_beta)

lemma Scanner_Scan_Inr:
  "fst (Scanner_Scan s env w) = Inr [fst (runSemgrep s env w), fst (runCodeQL s env (snd (runSemgrep s env w)))]"
  by (simp add: Scanner_Scan_def Let_def case_prod_beta)

lemma Detect_sink [simp]: "sink (snd (Detect d env w)) = sink w"
  by (simp add: Detect_def getCoverage_def Coverage_def Let_def case_prod_beta split: option.splits sum.splits)

lemma Detect_Inr: "\<exists>r. fst (Detect d env w) = Inr r"
  by (simp add: Detect_def Let_def case_prod_beta split: option.splits sum.splits)


section \<open>The exit code of a scan\<close>

lemma Run_fst_indep:
  "Stdout (fst (Run r env cmd args w)) = Stdout (fst (Run r env cmd args w'))"
  "RunResult.Error (fst (Run r env cmd args w)) = RunResult.Error (fst (Run r env cmd args w'))"
  by (simp_all add: Run_def Let_def case_prod_beta)

lemma runSemgrep_Findings_indep:
  "Findings (fst (runSemgrep s env w)) = Findings (fst (runSemgrep s env w'))"
proof -
  let ?c = "''semgrep''" and ?a = "[''--config'', ''auto'', ''--json'', Scanner.workspace s]"
  have e: "RunResult.Error (fst (Run (Scanner.runner s) env ?c ?a (snd (timeNow env w)))) =
           RunResult.Error (fst (Run (Scanner.runner s) env ?c ?a (snd (timeNow env w'))))"
    by (rule Run_fst_indep)
  have o: "Stdout (fst (Run (Scanner.runner s) env ?c ?a (snd (timeNow env w)))) =
           Stdout (fst (Run (Scanner.runner s) env ?c ?a (snd (timeNow env w'))))"
    by (rule Run_fst_indep)
  show ?thesis
    unfolding runSemgrep_def Let_def case_prod_beta e o
    by (simp split: option.splits sum.splits)
qed

lemma runCodeQL_Findings: "Findings (fst (runCodeQL s env w)) = []"
  by (simp add: runCodeQL_def Let_def case_prod_beta)

lemma countFindings_sum:
  "countFindings rs n = n + sum_list (map (\<lambda>r. length (Findings r)) rs)"
  by (induction rs arbitrary: n) simp_all

lemma total_security_findings_indep:
  "total_security_findings s env w = total_security_findings s env w'"
  using runSemgrep_Findings_indep [of s env w w']
  by (simp add: total_security_findings_def Scanner_Scan_Inr runCodeQL_Findings)

lemma Detect_Symbols_indep:
  "total_dead_symbols d env w = total_dead_symbols d env w'"
  by (simp add: total_dead_symbols_def Detect_def Let_def case_prod_beta split: sum.splits)

lemma Scan_security_fst:
  "fst (Scan_security e env start (sd, ec, sm) w) =
     (case marshalSARIF env
             (case fst (Scanner_Scan (scanner e) env
                     (LogToolCall (auditLogger e) env ''security'' ''scanner''
                        [''security'', ''scan''] 0 ''started'' None w)) of Inr rs \<Rightarrow> rs | Inl x \<Rightarrow> []) of
        Inl err \<Rightarrow> Inl err
      | Inr sarif \<Rightarrow>
          Inr (Some sarif,
               (if 0 < total_security_findings (scanner e) env w then 10 else ec),
               (if 0 < total_security_findings (scanner e) env w
                then ''Found '' @ itoa (total_security_findings (scanner e) env w) @ '' security findings''
                else sm)))"
proof -
  let ?w1 = "LogToolCall (auditLogger e) env ''security'' ''scanner''
                        [''security'', ''scan''] 0 ''started'' None w"
  have t: "total_security_findings (scanner e) env w = total_security_findings (scanner e) env ?w1"
    by (rule total_security_findings_indep)
  show ?thesis
    unfolding t
    by (simp add: Scan_security_def Let_def case_prod_beta Scanner_Scan_Inr GenerateSARIF_def
          total_security_findings_def countFindings_sum runCodeQL_Findings split: sum.splits)
qed

lemma Scan_deadcode_fst:
  "fst (Scan_deadcode e env start (sd, ec, sm) w) =
     Inr (sd,
          (if 0 < total_dead_symbols (detector e) env w then (if ec = 0 then 11 else ec) else ec),
          (if 0 < total_dead_symbols (detector e) env w
           then sm @ ''; Found '' @ itoa (total_dead_symbols (detector e) env w) @ '' dead code symbols''
           else sm))"
proof -
  let ?w1 = "LogToolCall (auditLogger e) env ''deadcode'' ''detector''
                 [''deadcode'', ''detect''] 0 ''started'' None w"
  have t: "total_dead_symbols (detector e) env w = total_dead_symbols (detector e) env ?w1"
    by (rule Detect_Symbols_indep)
  obtain r where r: "fst (Detect (detector e) env ?w1) = Inr r"
    using Detect_Inr by blast
  show ?thesis
    unfolding t
    by (simp add: Scan_deadcode_def Let_def case_prod_beta r total_dead_symbols_def)
qed



lemma Engine_Scan_result:
  "(case fst (Engine_Scan e env opts w) of
      Inl err \<Rightarrow> Security opts \<and> (\<exists>rs. marshalSARIF env rs = Inl err)
    | Inr res \<Rightarrow>
        engine_ScanResult.ExitCode res =
          (if Security opts \<and> 0 < total_security_findings (scanner e) env wa then 10
           else if DeadCode opts \<and> 0 < total_dead_symbols (detector e) env wb then 11
           else 0))"
proof -
  define S where "S = total_security_findings (scanner e) env wa"
  define D where "D = total_dead_symbols (detector e) env wb"
  define start where "start = timeAt env (clock w)"
  define w0 where "w0 = snd (timeNow env w)"
  define locals0 :: scan_locals where "locals0 = (None, 0, ''Scan completed successfully'')"
  have tn: "timeNow env w = (start, w0)"
    by (simp add: start_def w0_def timeNow_def)
  have a: "\<And>w'. total_security_findings (scanner e) env w' = S"
    unfolding S_def by (rule total_security_findings_indep)
  have b: "\<And>w'. total_dead_symbols (detector e) env w' = D"
    unfolding D_def by (rule Detect_Symbols_indep)
  obtain r1 w1 where A:
    "(if Security opts then Scan_security e env start locals0 w0 else (Inr locals0, w0)) = (r1, w1)"
    by (cases "if Security opts then Scan_security e env start locals0 w0 else (Inr locals0, w0)") blast
  show ?thesis
  proof (cases r1)
    case (Inl err)
    with A have sec: "Security opts" and f: "fst (Scan_security e env start locals0 w0) = Inl err"
      by (auto split: if_splits)
    from f have "\<exists>rs. marshalSARIF env rs = Inl err"
      unfolding locals0_def Scan_security_fst by (auto split: sum.splits)
    moreover have "fst (Engine_Scan e env opts w) = Inl err"
    proof -
      have "Engine_Scan e env opts w = (Inl err, w1)"
        by (simp only: Engine_Scan_def tn Let_def prod.case A [unfolded locals0_def] Inl sum.case)
      then show ?thesis by simp
    qed
    ultimately show ?thesis using sec by simp
  next
    case (Inr locals1)
    obtain sd ec sm where l1: "locals1 = (sd, ec, sm)" by (cases locals1) auto
    have ec: "ec = (if Security opts \<and> 0 < S then 10 else 0)"
    proof (cases "Security opts")
      case True
      with A Inr l1 have "fst (Scan_security e env start locals0 w0) = Inr (sd, ec, sm)" by simp
      then show ?thesis
        unfolding locals0_def Scan_security_fst a using True by (auto split: sum.splits)
    next
      case False
      with A Inr l1 show ?thesis by (simp add: locals0_def)
    qed
    obtain r2 w2 where B:
      "(if DeadCode opts then Scan_deadcode e env start locals1 w1 else (Inr locals1, w1)) = (r2, w2)"
      by (cases "if DeadCode opts then Scan_deadcode e env start locals1 w1 else (Inr locals1, w1)") blast
    have r2: "\<exists>sd' sm'. r2 = Inr (sd', (if DeadCode opts \<and> 0 < D then (if ec = 0 then 11 else ec) else ec), sm')"
    proof (cases "DeadCode opts")
      case True
      with B have "r2 = fst (Scan_deadcode e env start (sd, ec, sm) w1)" by (simp add: l1)
      then show ?thesis unfolding Scan_deadcode_fst b using True by simp
    next
      case False
      with B l1 show ?thesis by auto
    qed
    then obtain sd' sm' where r2': "r2 = Inr (sd', (if DeadCode opts \<and> 0 < D then (if ec = 0 then 11 else ec) else ec), sm')"
      by blast
    have "\<exists>res. fst (Engine_Scan e env opts w) = Inr res \<and>
            engine_ScanResult.ExitCode res = (if DeadCode opts \<and> 0 < D then (if ec = 0 then 11 else ec) else ec)"
    proof -
      have "Engine_Scan e env opts w =
              (case timeNow env w2 of (createdAt, w3) \<Rightarrow>
                 (Inr \<lparr>SARIF = (case sd' of None \<Rightarrow> emptySARIF | Some d \<Rightarrow> d),
                       Plan = basicPlan createdAt,
                       engine_ScanResult.ExitCode =
                         (if DeadCode opts \<and> 0 < D then (if ec = 0 then 11 else ec) else ec),
                       Summary = sm'\<rparr>, w3))"
        by (simp only: Engine_Scan_def tn Let_def prod.case A [unfolded locals0_def] Inr
              sum.case B r2')
      then show ?thesis by (simp add: timeNow_def)
    qed
    then show ?thesis
      unfolding S_def [symmetric] D_def [symmetric] using ec by auto
  qed
qed

text \<open>
  C2.  Whatever scan kinds are requested, \<open>Engine.Scan\<close> either returns a result whose
  exit code follows the precedence over the aggregate counts (10 when the total of
  security findings is positive, else 11 when the number of dead-code symbols is
  positive, else 0; a kind that is not requested contributes no findings), or returns
  the error of the SARIF encoding of a requested security scan and no exit code.  The
  counts do not depend on the clock or the log, so they are taken at any worlds
  \<open>wa\<close> and \<open>wb\<close>.
\<close>

theorem Scan_exit_code:
  "(case fst (Engine_Scan e env opts w) of
      Inl err \<Rightarrow> Security opts \<and> (\<exists>rs. marshalSARIF env rs = Inl err)
    | Inr res \<Rightarrow>
        engine_ScanResult.ExitCode res =
          (if Security opts \<and> 0 < total_security_findings (scanner e) env wa then 10
           else if DeadCode opts \<and> 0 < total_dead_symbols (detector e) env wb then 11
           else 0))"
  by (rule Engine_Scan_result)


lemma New_engineOf:
  "New env \<lparr>Repo = ''.'', AgentPath = ''./AGENT.md'', Policy = DefaultPolicy, LogPath = []\<rparr>
   = Inr (engineOf DefaultPolicy)"
  "New env \<lparr>Repo = ''.'', AgentPath = ''./AGENT.md'', Policy = scanPolicy, LogPath = []\<rparr>
   = Inr (engineOf scanPolicy)"
  by (simp_all add: New_def engineOf_def scanPolicy_def DefaultPolicy_def NewAuditLogger_def
        int64_def Let_def)

lemma scan_counts:
  "total_security_findings (scanner (engineOf scanPolicy)) (scanEnv nf ns) w = nf"
  "total_dead_symbols (detector (engineOf scanPolicy)) (scanEnv nf ns) w = ns"
  by (simp_all add: total_security_findings_def Scanner_Scan_Inr runSemgrep_def runCodeQL_def
        total_dead_symbols_def Detect_def getCoverage_def Coverage_def NewDetector_def
        engineOf_def scanPolicy_def DefaultPolicy_def scanEnv_def exampleEnv_def
        NewScanner_def NewRunner_def Let_def case_prod_beta Run_def allowed_mem)

theorem Scan_exit_code_witness:
  "(\<exists>res. fst (Engine_Scan (engineOf scanPolicy) (scanEnv 1 3) bothKinds emptyWorld) = Inr res
          \<and> engine_ScanResult.ExitCode res = 10)
   \<and> (\<exists>res. fst (Engine_Scan (engineOf scanPolicy) (scanEnv 0 3) bothKinds emptyWorld) = Inr res
          \<and> engine_ScanResult.ExitCode res = 11)
   \<and> (\<exists>res. fst (Engine_Scan (engineOf scanPolicy) (scanEnv 0 0) bothKinds emptyWorld) = Inr res
          \<and> engine_ScanResult.ExitCode res = 0)"
proof -
  have ok: "\<And>nf ns rs err. marshalSARIF (scanEnv nf ns) rs \<noteq> Inl err"
    by (simp add: scanEnv_def exampleEnv_def)
  have b: "Security bothKinds" "DeadCode bothKinds"
    by (simp_all add: bothKinds_def)
  have "\<And>nf ns. \<exists>res. fst (Engine_Scan (engineOf scanPolicy) (scanEnv nf ns) bothKinds emptyWorld)
                        = Inr res
          \<and> engine_ScanResult.ExitCode res = (if 0 < nf then 10 else if 0 < ns then 11 else 0)"
  proof -
    fix nf ns
    show "\<exists>res. fst (Engine_Scan (engineOf scanPolicy) (scanEnv nf ns) bothKinds emptyWorld)
                        = Inr res
          \<and> engine_ScanResult.ExitCode res = (if 0 < nf then 10 else if 0 < ns then 11 else 0)"
      using Scan_exit_code [where e = "engineOf scanPolicy" and env = "scanEnv nf ns"
                              and opts = bothKinds and w = emptyWorld
                              and wa = emptyWorld and wb = emptyWorld]
      by (cases "fst (Engine_Scan (engineOf scanPolicy) (scanEnv nf ns) bothKinds emptyWorld)")
         (simp_all add: ok b scan_counts)
  qed
  from this [of 1 3] this [of 0 3] this [of 0 0] show ?thesis by simp
qed

section \<open>A denied command\<close>

text \<open>
  C4 (as the claim states it, the duration fails).  The claim gives the result of a
  denied invocation a zero duration.  The source sets \<open>Duration: time.Since(start)\<close>:
  with a clock that advances by 100 nanoseconds between the two readings, the denied
  \<open>rm -rf /\<close> returns a duration of 100.
\<close>

theorem Run_denied_duration_counterexample:
  "\<not> allowed testRunner ''rm'' [''-rf'', ''/'']
   \<and> RunResult.Duration (fst (Run testRunner exampleEnv ''rm'' [''-rf'', ''/''] emptyWorld)) = 100"
  by (simp add: Run_def timeNow_def timeSince_def allowed_mem testRunner_def NewRunner_def
        exampleEnv_def emptyWorld_def)

text \<open>
  C4 (amended).  For every invocation the allowlist denies, \<open>Run\<close> returns a result with
  the error \<open>command not allowlisted\<close>, no output, exit code 0 and, as duration, the time
  that passed between its two readings of the clock (zero only when the clock did not
  advance); it starts no process, writes no audit record and changes no file.
\<close>

theorem Run_denied:
  assumes "\<not> allowed r cmd args"
  shows "RunResult.Error (fst (Run r env cmd args w)) = Some ''command not allowlisted''
       \<and> RunResult.Duration (fst (Run r env cmd args w))
           = timeAt env (clock w + 1) - timeAt env (clock w)
       \<and> Stdout (fst (Run r env cmd args w)) = []
       \<and> RunResult.ExitCode (fst (Run r env cmd args w)) = 0
       \<and> started (snd (Run r env cmd args w)) = started w
       \<and> sink (snd (Run r env cmd args w)) = sink w
       \<and> files (snd (Run r env cmd args w)) = files w"
  using assms by (simp add: Run_def timeNow_def timeSince_def)

theorem Run_denied_witness:
  "\<not> allowed testRunner ''go'' [''build'', ''--unsafe'']
   \<and> RunResult.Error (fst (Run testRunner exampleEnv ''go'' [''build'', ''--unsafe''] emptyWorld))
       = Some ''command not allowlisted''
   \<and> started (snd (Run testRunner exampleEnv ''go'' [''build'', ''--unsafe''] emptyWorld)) = []
   \<and> sink (snd (Run testRunner exampleEnv ''go'' [''build'', ''--unsafe''] emptyWorld)) = []"
proof -
  have d: "\<not> allowed testRunner ''go'' [''build'', ''--unsafe'']"
    by (simp add: allowed_mem testRunner_def NewRunner_def)
  from Run_denied [OF d, of exampleEnv emptyWorld] d show ?thesis
    by (simp add: emptyWorld_def)
qed

section \<open>Audit records of a scan\<close>

lemma appends_same: "sink w' = sink w \<Longrightarrow> appends w w' []"
  by (simp add: appends_def)

lemma appends_trans: "appends w w1 k1 \<Longrightarrow> appends w1 w2 k2 \<Longrightarrow> appends w w2 (k1 @ k2)"
  by (auto simp: appends_def)

lemma appends_sink_eq: "appends w w1 ks \<Longrightarrow> sink w2 = sink w1 \<Longrightarrow> appends w w2 ks"
  by (simp add: appends_def)

lemma LogToolCall_appends:
  "appends w (LogToolCall a env step tool args d status err w) [(''tool.run'', status)]"
  by (cases err) (simp_all add: appends_def LogToolCall_def writeEntry_def timeNow_def
                    kind_status_def Let_def)

lemma LogScanResult_appends:
  "appends w (LogScanResult a env step n d w) [(''scan.result'', ''ok'')]"
  by (simp add: appends_def LogScanResult_def writeEntry_def timeNow_def kind_status_def Let_def)

lemma Scan_security_appends:
  "appends w (snd (Scan_security e env start locals w))
     (case fst (Scan_security e env start locals w) of
        Inl err \<Rightarrow> [(''tool.run'', ''started''), (''tool.run'', ''error'')]
      | Inr l \<Rightarrow> [(''tool.run'', ''started''), (''scan.result'', ''ok'')])"
proof -
  obtain sd ec sm where l: "locals = (sd, ec, sm)" by (cases locals) auto
  define w1 where "w1 = LogToolCall (auditLogger e) env ''security'' ''scanner''
                 [''security'', ''scan''] 0 ''started'' None w"
  define w2 where "w2 = snd (Scanner_Scan (scanner e) env w1)"
  define w3 where "w3 = snd (timeSince env start w2)"
  define d where "d = fst (timeSince env start w2)"
  define rs where "rs = [fst (runSemgrep (scanner e) env w1),
                         fst (runCodeQL (scanner e) env (snd (runSemgrep (scanner e) env w1)))]"
  have a1: "appends w w1 [(''tool.run'', ''started'')]"
    unfolding w1_def by (rule LogToolCall_appends)
  have s3: "sink w3 = sink w1"
    by (simp add: w3_def w2_def)
  have a3: "appends w w3 [(''tool.run'', ''started'')]"
    using a1 s3 by (rule appends_sink_eq)
  show ?thesis
  proof (cases "marshalSARIF env rs")
    case (Inl err)
    have "Scan_security e env start locals w =
            (Inl err, LogToolCall (auditLogger e) env ''security'' ''scanner''
                         [''sarif'', ''generate''] d ''error'' (Some err) w3)"
      using Inl
      by (simp add: Scan_security_def l Let_def case_prod_beta Scanner_Scan_Inr GenerateSARIF_def
            rs_def w1_def w2_def w3_def d_def)
    then show ?thesis
      using appends_trans [OF a3 LogToolCall_appends] by simp
  next
    case (Inr sarif)
    have "\<exists>l. Scan_security e env start locals w =
            (Inr l, LogScanResult (auditLogger e) env ''security''
                      (int (countFindings rs 0)) d w3)"
      using Inr
      by (simp add: Scan_security_def l Let_def case_prod_beta Scanner_Scan_Inr GenerateSARIF_def
            rs_def w1_def w2_def w3_def d_def)
    then show ?thesis
      using appends_trans [OF a3 LogScanResult_appends] by auto
  qed
qed

lemma Scan_deadcode_appends:
  "appends w (snd (Scan_deadcode e env start locals w))
     [(''tool.run'', ''started''), (''scan.result'', ''ok'')]"
proof -
  obtain sd ec sm where l: "locals = (sd, ec, sm)" by (cases locals) auto
  define w1 where "w1 = LogToolCall (auditLogger e) env ''deadcode'' ''detector''
                 [''deadcode'', ''detect''] 0 ''started'' None w"
  define w2 where "w2 = snd (Detect (detector e) env w1)"
  define w3 where "w3 = snd (timeSince env start w2)"
  define d where "d = fst (timeSince env start w2)"
  obtain r where r: "fst (Detect (detector e) env w1) = Inr r"
    using Detect_Inr by blast
  have a1: "appends w w1 [(''tool.run'', ''started'')]"
    unfolding w1_def by (rule LogToolCall_appends)
  have s3: "sink w3 = sink w1"
    by (simp add: w3_def w2_def)
  have a3: "appends w w3 [(''tool.run'', ''started'')]"
    using a1 s3 by (rule appends_sink_eq)
  have "snd (Scan_deadcode e env start locals w) =
          LogScanResult (auditLogger e) env ''deadcode'' (int (length (Symbols r))) d w3"
    using r
    by (simp add: Scan_deadcode_def l Let_def case_prod_beta w1_def w2_def w3_def d_def)
  then show ?thesis
    using appends_trans [OF a3 LogScanResult_appends] by simp
qed

lemma appends_sink_eq_left: "sink w0 = sink w \<Longrightarrow> appends w0 w1 ks \<Longrightarrow> appends w w1 ks"
  by (simp add: appends_def)

lemma Engine_Scan_appends:
  "appends w (snd (Engine_Scan e env opts w))
     (case fst (Engine_Scan e env opts w) of
        Inl err \<Rightarrow> [(''tool.run'', ''started''), (''tool.run'', ''error'')]
      | Inr res \<Rightarrow>
          (if Security opts then [(''tool.run'', ''started''), (''scan.result'', ''ok'')] else [])
          @ (if DeadCode opts then [(''tool.run'', ''started''), (''scan.result'', ''ok'')] else []))"
proof -
  define start where "start = timeAt env (clock w)"
  define w0 where "w0 = snd (timeNow env w)"
  define locals0 :: scan_locals where "locals0 = (None, 0, ''Scan completed successfully'')"
  have tn: "timeNow env w = (start, w0)"
    by (simp add: start_def w0_def timeNow_def)
  have s0: "sink w0 = sink w"
    by (simp add: w0_def)
  obtain r1 w1 where A:
    "(if Security opts then Scan_security e env start locals0 w0 else (Inr locals0, w0)) = (r1, w1)"
    by (cases "if Security opts then Scan_security e env start locals0 w0 else (Inr locals0, w0)") blast
  have a1: "appends w w1
              (if Security opts
               then (case r1 of Inl err \<Rightarrow> [(''tool.run'', ''started''), (''tool.run'', ''error'')]
                     | Inr l \<Rightarrow> [(''tool.run'', ''started''), (''scan.result'', ''ok'')])
               else [])"
  proof (cases "Security opts")
    case True
    with A have "Scan_security e env start locals0 w0 = (r1, w1)" by simp
    with Scan_security_appends [of w0 e env start locals0] True
    show ?thesis by (simp add: appends_sink_eq_left [OF s0])
  next
    case False
    with A have "w1 = w0" by simp
    with False s0 show ?thesis by (simp add: appends_def)
  qed
  show ?thesis
  proof (cases r1)
    case (Inl err)
    with A have sec: "Security opts" by (auto split: if_splits)
    have "Engine_Scan e env opts w = (Inl err, w1)"
      by (simp only: Engine_Scan_def tn Let_def prod.case A [unfolded locals0_def] Inl sum.case)
    with a1 sec Inl show ?thesis by simp
  next
    case (Inr locals1)
    obtain sd ec sm where l1: "locals1 = (sd, ec, sm)" by (cases locals1) auto
    obtain r2 w2 where B:
      "(if DeadCode opts then Scan_deadcode e env start locals1 w1 else (Inr locals1, w1)) = (r2, w2)"
      by (cases "if DeadCode opts then Scan_deadcode e env start locals1 w1 else (Inr locals1, w1)") blast
    have r2: "\<exists>sd' ec' sm'. r2 = Inr (sd', ec', sm')"
    proof (cases "DeadCode opts")
      case True
      with B have "r2 = fst (Scan_deadcode e env start (sd, ec, sm) w1)" by (simp add: l1)
      then show ?thesis unfolding Scan_deadcode_fst by simp
    next
      case False
      with B l1 show ?thesis by auto
    qed
    then obtain sd' ec' sm' where r2': "r2 = Inr (sd', ec', sm')" by blast
    have a2: "appends w1 w2
                (if DeadCode opts then [(''tool.run'', ''started''), (''scan.result'', ''ok'')] else [])"
    proof (cases "DeadCode opts")
      case True
      with B have "snd (Scan_deadcode e env start locals1 w1) = w2" by simp
      with Scan_deadcode_appends [of w1 e env start locals1] True show ?thesis by simp
    next
      case False
      with B have "w2 = w1" by simp
      with False show ?thesis by (simp add: appends_def)
    qed
    have E: "Engine_Scan e env opts w =
              (case timeNow env w2 of (createdAt, w3) \<Rightarrow>
                 (Inr \<lparr>SARIF = (case sd' of None \<Rightarrow> emptySARIF | Some d \<Rightarrow> d),
                       Plan = basicPlan createdAt,
                       engine_ScanResult.ExitCode = ec',
                       Summary = sm'\<rparr>, w3))"
      by (simp only: Engine_Scan_def tn Let_def prod.case A [unfolded locals0_def] Inr
            sum.case B r2')
    have f: "\<exists>res. fst (Engine_Scan e env opts w) = Inr res"
      and s: "sink (snd (Engine_Scan e env opts w)) = sink w2"
      unfolding E by (simp_all add: timeNow_def)
    from appends_trans [OF a1 [unfolded Inr sum.case] a2] have "appends w w2
       ((if Security opts then [(''tool.run'', ''started''), (''scan.result'', ''ok'')] else [])
        @ (if DeadCode opts then [(''tool.run'', ''started''), (''scan.result'', ''ok'')] else []))"
      by (cases "Security opts"; cases "DeadCode opts") simp_all
    then show ?thesis
      using f s by (auto simp: appends_def)
  qed
qed

text \<open>
  C6 (as the claim states it, it fails).  \<open>rm -rf /\<close> is denied by the runner of the test
  suite, and \<open>Run\<close> leaves the audit sink empty: the denied invocation produced no
  \<open>tool.run\<close> record.  Through the engine it is the same: with the default policy the
  security scan's \<open>semgrep\<close> invocation is denied, and the scan writes one \<open>tool.run\<close>
  record, whose status is \<open>started\<close>, and one \<open>scan.result\<close> record with status \<open>ok\<close>.
\<close>

theorem denied_command_audit_counterexample:
  "\<not> allowed testRunner ''rm'' [''-rf'', ''/'']
   \<and> length (filter (\<lambda>x. Event x = ''tool.run'')
               (sink (snd (Run testRunner exampleEnv ''rm'' [''-rf'', ''/''] emptyWorld)))) = 0
   \<and> \<not> allowed (Engine.runner (engineOf DefaultPolicy)) ''semgrep''
           [''--config'', ''auto'', ''--json'', ''.'']
   \<and> map kind_status
         (sink (snd (Engine_Scan (engineOf DefaultPolicy) exampleEnv
                       \<lparr>Security = True, DeadCode = False\<rparr> emptyWorld)))
       = [(''tool.run'', ''started''), (''scan.result'', ''ok'')]"
proof -
  have 1: "\<not> allowed testRunner ''rm'' [''-rf'', ''/'']"
    by (simp add: allowed_mem testRunner_def NewRunner_def)
  have 2: "sink (snd (Run testRunner exampleEnv ''rm'' [''-rf'', ''/''] emptyWorld)) = []"
    by (simp add: emptyWorld_def)
  have 3: "\<not> allowed (Engine.runner (engineOf DefaultPolicy)) ''semgrep''
           [''--config'', ''auto'', ''--json'', ''.'']"
    by (simp add: allowed_mem engineOf_def NewRunner_def DefaultPolicy_def Let_def)
  have ok: "\<And>rs err. marshalSARIF exampleEnv rs \<noteq> Inl err"
    by (simp add: exampleEnv_def)
  have "\<exists>res. fst (Engine_Scan (engineOf DefaultPolicy) exampleEnv
                       \<lparr>Security = True, DeadCode = False\<rparr> emptyWorld) = Inr res"
    using Engine_Scan_result [where e = "engineOf DefaultPolicy" and env = exampleEnv
             and opts = "\<lparr>Security = True, DeadCode = False\<rparr>" and w = emptyWorld] ok
    by (cases "fst (Engine_Scan (engineOf DefaultPolicy) exampleEnv
                       \<lparr>Security = True, DeadCode = False\<rparr> emptyWorld)") auto
  with Engine_Scan_appends [of emptyWorld "engineOf DefaultPolicy" exampleEnv
                              "\<lparr>Security = True, DeadCode = False\<rparr>"]
  have 4: "map kind_status
         (sink (snd (Engine_Scan (engineOf DefaultPolicy) exampleEnv
                       \<lparr>Security = True, DeadCode = False\<rparr> emptyWorld)))
       = [(''tool.run'', ''started''), (''scan.result'', ''ok'')]"
    by (auto simp: appends_def emptyWorld_def)
  from 1 2 3 4 show ?thesis by simp
qed

text \<open>
  C6 (amended).  \<open>Run\<close> writes no audit record, for a denied command and for an allowed
  one.  The audit records of a scan are those \<open>Engine.Scan\<close> appends itself: for each
  requested scan kind one \<open>tool.run\<close> record with status \<open>started\<close> followed by one
  \<open>scan.result\<close> record with status \<open>ok\<close>; when the scan ends with the error of the SARIF
  encoding, one \<open>tool.run\<close> record with status \<open>started\<close> followed by one with status
  \<open>error\<close>.  Commands run or denied inside the scan add nothing.
\<close>

theorem audit_records_of_Run_and_Scan:
  "sink (snd (Run r env cmd args w)) = sink w
   \<and> (\<exists>new. sink (snd (Engine_Scan e env opts w)) = sink w @ new
          \<and> map kind_status new =
              (case fst (Engine_Scan e env opts w) of
                 Inl err \<Rightarrow> [(''tool.run'', ''started''), (''tool.run'', ''error'')]
               | Inr res \<Rightarrow>
                   (if Security opts
                    then [(''tool.run'', ''started''), (''scan.result'', ''ok'')] else [])
                   @ (if DeadCode opts
                      then [(''tool.run'', ''started''), (''scan.result'', ''ok'')] else [])))"
  using Engine_Scan_appends [of w e env opts] by (simp add: appends_def)


theorem audit_records_of_Run_and_Scan_witness:
  "allowed testRunner ''echo'' [''hello'']
   \<and> sink (snd (Run testRunner exampleEnv ''echo'' [''hello''] emptyWorld)) = sink emptyWorld
   \<and> (\<exists>res. fst (Engine_Scan (engineOf DefaultPolicy) exampleEnv bothKinds emptyWorld) = Inr res)
   \<and> map kind_status
         (sink (snd (Engine_Scan (engineOf DefaultPolicy) exampleEnv bothKinds emptyWorld)))
       = [(''tool.run'', ''started''), (''scan.result'', ''ok''),
          (''tool.run'', ''started''), (''scan.result'', ''ok'')]"
proof -
  have 1: "allowed testRunner ''echo'' [''hello'']"
    by (simp add: allowed_mem testRunner_def NewRunner_def)
  have ok: "\<And>rs err. marshalSARIF exampleEnv rs \<noteq> Inl err"
    by (simp add: exampleEnv_def)
  have 3: "\<exists>res. fst (Engine_Scan (engineOf DefaultPolicy) exampleEnv bothKinds emptyWorld) = Inr res"
    using Engine_Scan_result [where e = "engineOf DefaultPolicy" and env = exampleEnv
             and opts = bothKinds and w = emptyWorld] ok
    by (cases "fst (Engine_Scan (engineOf DefaultPolicy) exampleEnv bothKinds emptyWorld)") auto
  from audit_records_of_Run_and_Scan [of testRunner exampleEnv "''echo''" "[''hello'']" emptyWorld
         "engineOf DefaultPolicy" bothKinds] 1 3
  show ?thesis
    by (auto simp: emptyWorld_def bothKinds_def)
qed



section \<open>The path guard\<close>

lemma denyPath_loop_iff:
  "denyPath_loop ds cleanPath = (\<exists>d \<in> set ds. prefix d cleanPath)"
  by (induction ds) (auto simp: HasPrefix_prefix)

lemma denyGlob_loop_iff:
  "denyGlob_loop env gs cleanPath = (\<exists>g \<in> set gs. globMatch env g cleanPath)"
  by (induction gs) auto

lemma isPathAllowed_denyPath:
  "d \<in> set (Patcher.DenyPaths p) \<Longrightarrow> HasPrefix (Clean path) d \<Longrightarrow> \<not> isPathAllowed p env path"
  by (auto simp: isPathAllowed_def Let_def denyPath_loop_iff HasPrefix_prefix)

lemma isPathAllowed_not_prefix:
  "Abs (getwd env) (Clean path) = Some a \<Longrightarrow> Abs (getwd env) (Workspace p) = Some ws \<Longrightarrow>
   \<not> prefix ws a \<Longrightarrow> \<not> isPathAllowed p env path"
  by (simp add: isPathAllowed_def Let_def HasPrefix_prefix)

text \<open>
  C3 (the code does not do what the claim says).  The first half holds: a cleaned path
  that starts with a deny-path prefix is denied whatever the globs are
  (\<open>isPathAllowed_denyPath\<close>).  The second half fails.  With the workspace \<open>/ws\<close>, the
  working directory \<open>/ws\<close> and both deny lists empty, the relative path
  \<open>../ws-backup/secret\<close> has the absolute form \<open>/ws-backup/secret\<close>, which is not inside
  the directory \<open>/ws\<close>; the guard, whose last step the source introduces as
  \<open>Ensure path is within workspace\<close>, reports it as allowed.
\<close>

theorem isPathAllowed_sibling_directory:
  "Abs (getwd exampleEnv) (Clean ''../ws-backup/secret'') = Some ''/ws-backup/secret''
   \<and> Abs (getwd exampleEnv) ''/ws'' = Some ''/ws''
   \<and> \<not> inside_dir ''/ws'' ''/ws-backup/secret''
   \<and> isPathAllowed \<lparr>Workspace = ''/ws'', DenyPaths = [], DenyGlobs = []\<rparr> exampleEnv
         ''../ws-backup/secret''"
  by (simp add: isPathAllowed_def exampleEnv_def Clean_def clean_loop.simps clean_back.simps
        Abs_def IsAbs_def HasPrefix_def Join2_def inside_dir_def)

text \<open>
  C9.  When no deny rule matches the cleaned path, \<open>isPathAllowed\<close> accepts the path
  exactly when both absolute forms exist and the absolute form of the workspace is a
  prefix, as a string, of the absolute form of the cleaned path.  So \<open>/wsother/f\<close>, which
  is not inside the directory \<open>/ws\<close>, is reported as allowed for the workspace \<open>/ws\<close>
  with empty deny lists, in every environment.
\<close>

theorem isPathAllowed_string_prefix:
  "(\<not> denyPath_loop (Patcher.DenyPaths p) (Clean path) \<and>
    \<not> denyGlob_loop env (Patcher.DenyGlobs p) (Clean path) \<longrightarrow>
      isPathAllowed p env path =
        (\<exists>a ws. Abs (getwd env) (Clean path) = Some a \<and>
                Abs (getwd env) (Workspace p) = Some ws \<and> prefix ws a))
   \<and> \<not> inside_dir ''/ws'' ''/wsother/f''
   \<and> isPathAllowed \<lparr>Workspace = ''/ws'', DenyPaths = [], DenyGlobs = []\<rparr> env ''/wsother/f''"
proof (intro conjI impI)
  assume "\<not> denyPath_loop (Patcher.DenyPaths p) (Clean path) \<and>
          \<not> denyGlob_loop env (Patcher.DenyGlobs p) (Clean path)"
  then show "isPathAllowed p env path =
        (\<exists>a ws. Abs (getwd env) (Clean path) = Some a \<and>
                Abs (getwd env) (Workspace p) = Some ws \<and> prefix ws a)"
    by (auto simp: isPathAllowed_def Let_def HasPrefix_prefix split: option.splits)
next
  show "\<not> inside_dir ''/ws'' ''/wsother/f''"
    by (simp add: inside_dir_def)
next
  show "isPathAllowed \<lparr>Workspace = ''/ws'', DenyPaths = [], DenyGlobs = []\<rparr> env ''/wsother/f''"
    by (simp add: isPathAllowed_def Clean_def clean_loop.simps clean_back.simps
          Abs_def IsAbs_def HasPrefix_def)
qed

theorem isPathAllowed_string_prefix_witness:
  "\<not> denyPath_loop (Patcher.DenyPaths \<lparr>Workspace = ''/ws'', DenyPaths = [''/etc''], DenyGlobs = [''*.pem'']\<rparr>)
         (Clean ''/ws/../wsother/./f'')
   \<and> \<not> denyGlob_loop exampleEnv
         (Patcher.DenyGlobs \<lparr>Workspace = ''/ws'', DenyPaths = [''/etc''], DenyGlobs = [''*.pem'']\<rparr>)
         (Clean ''/ws/../wsother/./f'')
   \<and> Abs (getwd exampleEnv) (Clean ''/ws/../wsother/./f'') = Some ''/wsother/f''
   \<and> Abs (getwd exampleEnv) ''/ws'' = Some ''/ws''
   \<and> prefix ''/ws'' ''/wsother/f''
   \<and> isPathAllowed \<lparr>Workspace = ''/ws'', DenyPaths = [''/etc''], DenyGlobs = [''*.pem'']\<rparr>
         exampleEnv ''/ws/../wsother/./f''"
proof -
  let ?p = "\<lparr>Workspace = ''/ws'', DenyPaths = [''/etc''], DenyGlobs = [''*.pem'']\<rparr>"
  have c: "Clean ''/ws/../wsother/./f'' = ''/wsother/f''"
    by (simp add: Clean_def clean_loop.simps clean_back.simps)
  have 1: "\<not> denyPath_loop (Patcher.DenyPaths ?p) (Clean ''/ws/../wsother/./f'')"
    by (simp add: c HasPrefix_def)
  have 2: "\<not> denyGlob_loop exampleEnv (Patcher.DenyGlobs ?p) (Clean ''/ws/../wsother/./f'')"
    by (simp add: exampleEnv_def)
  have 3: "Abs (getwd exampleEnv) (Clean ''/ws/../wsother/./f'') = Some ''/wsother/f''"
    by (simp add: c Abs_def IsAbs_def HasPrefix_def Clean_def clean_loop.simps clean_back.simps)
  have 4: "Abs (getwd exampleEnv) ''/ws'' = Some ''/ws''"
    by (simp add: Abs_def IsAbs_def HasPrefix_def Clean_def clean_loop.simps clean_back.simps)
  have 5: "prefix ''/ws'' ''/wsother/f''"
    by simp
  from isPathAllowed_string_prefix [of ?p "''/ws/../wsother/./f''" exampleEnv] 1 2 3 4 5
  have "isPathAllowed ?p exampleEnv ''/ws/../wsother/./f''"
    by simp
  with 1 2 3 4 5 show ?thesis by blast
qed

section \<open>Patch application\<close>






section \<open>The unimplemented operations\<close>

text \<open>
  C7 (the code does not do what the claim says).  The stubs of the patcher fail with a
  \<open>not implemented\<close> error, as the claim says.  The stubs of the engine do not: for every
  plan and approval level \<open>Apply\<close> returns a nil error and \<open>Success = true\<close>, and for
  every option record \<open>CreatePR\<close> returns a nil error and the address of a pull request
  that does not exist.
\<close>

theorem engine_stubs_report_success:
  "Apply e plan approveLevel
     = Inr \<lparr>Success = True, engine_ApplyResult.Error = [], engine_ApplyResult.Files = []\<rparr>
   \<and> CreatePR e opts = Inr \<lparr>URL = ''https://github.com/example/repo/pull/123''\<rparr>
   \<and> fst (applySinglePatch p patch w) = Some ''patch application not implemented''
   \<and> snd (parseUnifiedDiff diff) = Some ''diff parsing not implemented''"
  by (simp add: Apply_def CreatePR_def applySinglePatch_def parseUnifiedDiff_def)


end
